theory Spec2Isabelle
  imports Main "HOL-Library.Char_ord" "HOL-Library.List_Lexorder"
begin

section \<open>csv\_to\_json.py: schema-driven grouping of CSV rows into JSON series\<close>

text \<open>
  The embedding follows \<^verbatim>\<open>generate_json\<close> in \<^verbatim>\<open>src/csv_to_json.py\<close> line by line.

  \<^item> A Python \<^verbatim>\<open>str\<close> is a \<open>string\<close>; a \<open>char\<close> stands for the code point of the
    same number (0..255), so comparison of strings is comparison by code point, as in
    Python.
  \<^item> A Python \<^verbatim>\<open>dict\<close> is an association list in insertion order with distinct keys
    (\<open>dict_set\<close> overwrites in place, else appends), since the order of
    \<^verbatim>\<open>series_dict.values()\<close> and of the fields decides the output.
  \<^item> Every \<^verbatim>\<open>raise\<close> is a value \<open>Inl e\<close> of \<open>error + 'a\<close>.
  \<^item> The interpreter's builtins that the script calls but does not define
    (\<^verbatim>\<open>float\<close>, \<^verbatim>\<open>int\<close>, \<^verbatim>\<open>==\<close> on floats, \<^verbatim>\<open>str\<close> of a float,
    attribute access, conversion and \<^verbatim>\<open>format\<close> inside a replacement field,
    \<^verbatim>\<open>json.dumps\<close>) are the fields of a record \<open>builtins\<close> that every function
    takes; \<open>'f\<close> is the type of float values.
  \<^item> The rows are what \<^verbatim>\<open>csv.DictReader\<close> yields: each row a list of (key, value)
    items, where a line shorter than the header gives the value \<^verbatim>\<open>None\<close> to the
    columns it lacks and a longer line gives its surplus cells, as a list, to the key
    \<^verbatim>\<open>None\<close>.
\<close>

subsection \<open>Values, errors, dictionaries\<close>

datatype error = KeyError | ValueError | AttributeError | IndexError | TypeError

datatype 'f pyval = VStr string | VInt int | VFloat 'f

type_synonym ('k, 'v) dict = "('k \<times> 'v) list"

fun dict_get :: "('k, 'v) dict \<Rightarrow> 'k \<Rightarrow> 'v option" where
  "dict_get [] k = None"
| "dict_get ((k', v) # d) k = (if k' = k then Some v else dict_get d k)"

fun dict_set :: "('k, 'v) dict \<Rightarrow> 'k \<Rightarrow> 'v \<Rightarrow> ('k, 'v) dict" where
  "dict_set [] k v = [(k, v)]"
| "dict_set ((k', v') # d) k v = (if k' = k then (k', v) # d else (k', v') # dict_set d k v)"

text \<open>\<^verbatim>\<open>d.get(k, default)\<close>\<close>

definition get_default :: "('k, 'v) dict \<Rightarrow> 'k \<Rightarrow> 'v \<Rightarrow> 'v" where
  "get_default d k dflt = (case dict_get d k of None \<Rightarrow> dflt | Some v \<Rightarrow> v)"

subsection \<open>\<^verbatim>\<open>str.lower\<close> and \<^verbatim>\<open>str.strip\<close> on code points below 256\<close>

definition lower_char :: "char \<Rightarrow> char" where
  "lower_char c =
     (let n = (of_char c :: nat)
      in if (65 \<le> n \<and> n \<le> 90) \<or> (192 \<le> n \<and> n \<le> 222 \<and> n \<noteq> 215)
         then char_of (n + 32) else c)"

definition lower :: "string \<Rightarrow> string" where
  "lower s = map lower_char s"

definition isspace :: "char \<Rightarrow> bool" where
  "isspace c =
     (let n = (of_char c :: nat)
      in (9 \<le> n \<and> n \<le> 13) \<or> (28 \<le> n \<and> n \<le> 32) \<or> n = 133 \<or> n = 160)"

definition strip :: "string \<Rightarrow> string" where
  "strip s = rev (dropWhile isspace (rev (dropWhile isspace s)))"

subsection \<open>The schema\<close>

text \<open>
  Each section of the schema is optional (\<^verbatim>\<open>schema.get(name, default)\<close>); \<open>None\<close> is
  an absent key. Inside a field, \<^verbatim>\<open>cfg["source"]\<close> is a subscript (absent: KeyError) and
  \<^verbatim>\<open>cfg.get("transform")\<close> a lookup (absent or \<^verbatim>\<open>null\<close>: \<open>None\<close>); inside
  \<^verbatim>\<open>points\<close>, \<^verbatim>\<open>x\<close>, \<^verbatim>\<open>y\<close> and \<^verbatim>\<open>transform\<close> are all read with \<^verbatim>\<open>.get\<close>.
\<close>

record field_cfg =
  source :: "string option"
  transform :: "string option"

record points_cfg =
  px :: "string option"
  py :: "string option"
  ptransform :: "string option"

record schema =
  group_by :: "string list option"
  fields_schema :: "(string, field_cfg) dict option"
  points_schema :: "points_cfg option"
  id_template :: "string option"
  mappings :: "(string, (string, string) dict) dict option"

subsection \<open>Series and documents\<close>

record 'f series =
  points :: "(string \<times> 'f pyval) list"
  fields_of :: "(string, 'f pyval) dict"

record 'f series_doc =
  series_id :: string
  doc_points :: "(string \<times> 'f pyval) list"
  doc_fields :: "(string, 'f pyval) dict"

record 'f builtins =
  py_float :: "string \<Rightarrow> 'f option"
  py_int :: "string \<Rightarrow> int option"
  float_eq :: "'f \<Rightarrow> 'f \<Rightarrow> bool"
  int_eq_float :: "int \<Rightarrow> 'f \<Rightarrow> bool"
  float_str :: "'f \<Rightarrow> string"
  field_object_error :: "'f pyval \<Rightarrow> string \<Rightarrow> char option \<Rightarrow> error option"
  render_field :: "'f pyval \<Rightarrow> string \<Rightarrow> char option \<Rightarrow> string \<Rightarrow> error + string"
  ssize_max :: nat
  json_dumps :: "nat option \<Rightarrow> 'f series_doc \<Rightarrow> string"

subsection \<open>Transforms (lines 69--73, 91, 104)\<close>

text \<open>
  \<^verbatim>\<open>transform_funcs.get(tag, lambda x: x)(val)\<close>: \<^verbatim>\<open>"float"\<close> and \<^verbatim>\<open>"int"\<close> call the
  builtin, which raises ValueError on a string it cannot parse; \<^verbatim>\<open>None\<close> and every
  other tag are the identity.
\<close>

definition apply_transform :: "'f builtins \<Rightarrow> string option \<Rightarrow> string \<Rightarrow> error + 'f pyval" where
  "apply_transform B tag val =
     (if tag = Some ''float'' then
        (case py_float B val of None \<Rightarrow> Inl ValueError | Some x \<Rightarrow> Inr (VFloat x))
      else if tag = Some ''int'' then
        (case py_int B val of None \<Rightarrow> Inl ValueError | Some i \<Rightarrow> Inr (VInt i))
      else Inr (VStr val))"

subsection \<open>Row normalisation and mappings (lines 78--85)\<close>

text \<open>
  The values that \<^verbatim>\<open>csv.DictReader\<close> puts in a row: the text of a cell, \<^verbatim>\<open>None\<close> for a
  column the line is too short for, and the list of surplus cells (under the key
  \<^verbatim>\<open>None\<close>, here the key \<open>None\<close>) of a line that is too long.
\<close>

datatype cell = Text string | NoValue | Surplus "string list"

text \<open>
  Line 79 calls \<^verbatim>\<open>k.lower()\<close> and \<^verbatim>\<open>v.strip()\<close> on every item in turn. Neither
  \<^verbatim>\<open>None\<close> nor a list has these methods: the first item with such a key or value
  raises AttributeError. When no item does, all keys and values are strings, and the
  comprehension is \<open>normalize_row\<close> of them.
\<close>

fun string_items :: "(string option \<times> cell) list \<Rightarrow> error + (string \<times> string) list" where
  "string_items [] = Inr []"
| "string_items ((k, v) # items) =
     (case k of
        None \<Rightarrow> Inl AttributeError
      | Some name \<Rightarrow>
          (case v of
             Text s \<Rightarrow>
               (case string_items items of Inl e \<Rightarrow> Inl e | Inr r \<Rightarrow> Inr ((name, s) # r))
           | NoValue \<Rightarrow> Inl AttributeError
           | Surplus _ \<Rightarrow> Inl AttributeError))"

text \<open>\<^verbatim>\<open>{k.lower(): v.strip() for k, v in row.items()}\<close> on string items.\<close>

definition normalize_row :: "(string \<times> string) list \<Rightarrow> (string, string) dict" where
  "normalize_row raw = fold (\<lambda>(k, v) d. dict_set d (lower k) (strip v)) raw []"

definition apply_mapping :: "string \<times> (string, string) dict \<Rightarrow> (string, string) dict \<Rightarrow> (string, string) dict" where
  "apply_mapping cm row =
     (let col_lower = lower (fst cm)
      in case dict_get row col_lower of
           None \<Rightarrow> row
         | Some v \<Rightarrow> dict_set row col_lower (get_default (snd cm) v v))"

definition apply_mappings :: "(string, (string, string) dict) dict \<Rightarrow> (string, string) dict \<Rightarrow> (string, string) dict" where
  "apply_mappings ms row = fold apply_mapping ms row"

subsection \<open>Field derivation and grouping key (lines 87--94)\<close>

fun map_fields :: "'f builtins \<Rightarrow> (string, string) dict \<Rightarrow> (string, field_cfg) dict
    \<Rightarrow> (string, 'f pyval) dict \<Rightarrow> error + (string, 'f pyval) dict" where
  "map_fields B row [] acc = Inr acc"
| "map_fields B row ((key, cfg) # rest) acc =
     (case source cfg of
        None \<Rightarrow> Inl KeyError
      | Some src \<Rightarrow>
          (case apply_transform B (transform cfg) (get_default row (lower src) []) of
             Inl e \<Rightarrow> Inl e
           | Inr v \<Rightarrow> map_fields B row rest (dict_set acc key v)))"

text \<open>\<^verbatim>\<open>tuple(fields[g] for g in group_by)\<close>: a subscript, so an absent name is a KeyError.\<close>

fun group_key :: "(string, 'f pyval) dict \<Rightarrow> string list \<Rightarrow> error + 'f pyval list" where
  "group_key flds [] = Inr []"
| "group_key flds (g # gs) =
     (case dict_get flds g of
        None \<Rightarrow> Inl KeyError
      | Some v \<Rightarrow> (case group_key flds gs of Inl e \<Rightarrow> Inl e | Inr vs \<Rightarrow> Inr (v # vs)))"

subsection \<open>The series dictionary (lines 66, 96--105)\<close>

text \<open>
  Equality of two values as Python's \<^verbatim>\<open>==\<close> decides it; two tuples are equal when they
  have the same length and equal components. A string never equals a number.
\<close>

fun py_eq :: "'f builtins \<Rightarrow> 'f pyval \<Rightarrow> 'f pyval \<Rightarrow> bool" where
  "py_eq B (VStr a) (VStr b) = (a = b)"
| "py_eq B (VInt a) (VInt b) = (a = b)"
| "py_eq B (VFloat a) (VFloat b) = float_eq B a b"
| "py_eq B (VInt a) (VFloat b) = int_eq_float B a b"
| "py_eq B (VFloat a) (VInt b) = int_eq_float B b a"
| "py_eq B _ _ = False"

definition key_eq :: "'f builtins \<Rightarrow> 'f pyval list \<Rightarrow> 'f pyval list \<Rightarrow> bool" where
  "key_eq B k1 k2 = list_all2 (py_eq B) k1 k2"

text \<open>
  The position of the entry that a lookup of \<open>k\<close> finds: the first stored key equal to
  \<open>k\<close>. Within one iteration the script subscripts \<^verbatim>\<open>series_dict\<close> with the same tuple
  object each time, so it keeps working on the entry found or created by the first
  subscript; the model keeps the position.
\<close>

fun find_key :: "'f builtins \<Rightarrow> 'f pyval list \<Rightarrow> ('f pyval list \<times> 'f series) list \<Rightarrow> nat option" where
  "find_key B k [] = None"
| "find_key B k ((k', s) # sd) =
     (if key_eq B k' k then Some 0
      else (case find_key B k sd of None \<Rightarrow> None | Some i \<Rightarrow> Some (Suc i)))"

text \<open>
  \<^verbatim>\<open>series_dict[key]\<close> on the \<^verbatim>\<open>defaultdict\<close>: an absent key is inserted at the end
  with \<^verbatim>\<open>{"points": [], "fields": {}}\<close>. The result is the dictionary and the position.
\<close>

definition subscript :: "'f builtins \<Rightarrow> 'f pyval list \<Rightarrow> ('f pyval list \<times> 'f series) list
    \<Rightarrow> ('f pyval list \<times> 'f series) list \<times> nat" where
  "subscript B k sd =
     (case find_key B k sd of
        Some i \<Rightarrow> (sd, i)
      | None \<Rightarrow> (sd @ [(k, \<lparr>points = [], fields_of = []\<rparr>)], length sd))"

definition upd_series :: "nat \<Rightarrow> ('f series \<Rightarrow> 'f series) \<Rightarrow> ('f pyval list \<times> 'f series) list
    \<Rightarrow> ('f pyval list \<times> 'f series) list" where
  "upd_series i f sd = (if i < length sd then sd[i := (fst (sd ! i), f (snd (sd ! i)))] else sd)"

text \<open>Lines 96--98: \<^verbatim>\<open>if not series_dict[key]["fields"]: series_dict[key]["fields"] = fields\<close>\<close>

definition init_fields :: "'f builtins \<Rightarrow> 'f pyval list \<Rightarrow> (string, 'f pyval) dict
    \<Rightarrow> ('f pyval list \<times> 'f series) list \<Rightarrow> ('f pyval list \<times> 'f series) list \<times> nat" where
  "init_fields B k flds sd =
     (let (sd1, i) = subscript B k sd
      in (upd_series i (\<lambda>s. if fields_of s = [] then s\<lparr>fields_of := flds\<rparr> else s) sd1, i))"

text \<open>
  Lines 100--105. \<^verbatim>\<open>points_schema.get("x")\<close> is \<^verbatim>\<open>None\<close> when the name (or the whole
  section) is absent, and \<^verbatim>\<open>None.lower()\<close> raises AttributeError; x is read before y.
\<close>

definition add_points :: "'f builtins \<Rightarrow> points_cfg option \<Rightarrow> (string, string) dict \<Rightarrow> nat
    \<Rightarrow> ('f pyval list \<times> 'f series) list \<Rightarrow> error + ('f pyval list \<times> 'f series) list" where
  "add_points B ps row i sd =
     (case (case ps of None \<Rightarrow> None | Some p \<Rightarrow> px p) of
        None \<Rightarrow> Inl AttributeError
      | Some xn \<Rightarrow>
          (let x_val = get_default row (lower xn) []
           in case (case ps of None \<Rightarrow> None | Some p \<Rightarrow> py p) of
                None \<Rightarrow> Inl AttributeError
              | Some yn \<Rightarrow>
                  (let y_val = get_default row (lower yn) []
                   in if x_val \<noteq> [] \<and> y_val \<noteq> [] then
                        (case apply_transform B (case ps of None \<Rightarrow> None | Some p \<Rightarrow> ptransform p) y_val of
                           Inl e \<Rightarrow> Inl e
                         | Inr y \<Rightarrow> Inr (upd_series i (\<lambda>s. s\<lparr>points := points s @ [(x_val, y)]\<rparr>) sd))
                      else Inr sd)))"

text \<open>
  Lines 78--94 of the loop body: the normalised row, its derived fields and its grouping
  key, or the first error raised on the way.
\<close>

definition derive_row :: "'f builtins \<Rightarrow> schema \<Rightarrow> (string option \<times> cell) list
    \<Rightarrow> error + ((string, string) dict \<times> (string, 'f pyval) dict \<times> 'f pyval list)" where
  "derive_row B S raw =
     (case string_items raw of
        Inl e \<Rightarrow> Inl e
      | Inr items \<Rightarrow>
          (let row = apply_mappings (case mappings S of None \<Rightarrow> [] | Some m \<Rightarrow> m) (normalize_row items)
           in case map_fields B row (case fields_schema S of None \<Rightarrow> [] | Some fs \<Rightarrow> fs) [] of
                Inl e \<Rightarrow> Inl e
              | Inr flds \<Rightarrow>
                  (case group_key flds (case group_by S of None \<Rightarrow> [] | Some g \<Rightarrow> g) of
                     Inl e \<Rightarrow> Inl e
                   | Inr k \<Rightarrow> Inr (row, flds, k))))"

text \<open>The body of the loop over the rows (lines 77--105).\<close>

definition process_row :: "'f builtins \<Rightarrow> schema \<Rightarrow> ('f pyval list \<times> 'f series) list
    \<Rightarrow> (string option \<times> cell) list \<Rightarrow> error + ('f pyval list \<times> 'f series) list" where
  "process_row B S sd raw =
     (case derive_row B S raw of
        Inl e \<Rightarrow> Inl e
      | Inr (row, flds, k) \<Rightarrow>
          (let (sd1, i) = init_fields B k flds sd
           in add_points B (points_schema S) row i sd1))"

fun process_rows :: "'f builtins \<Rightarrow> schema \<Rightarrow> ('f pyval list \<times> 'f series) list
    \<Rightarrow> (string option \<times> cell) list list \<Rightarrow> error + ('f pyval list \<times> 'f series) list" where
  "process_rows B S sd [] = Inr sd"
| "process_rows B S sd (raw # rows) =
     (case process_row B S sd raw of
        Inl e \<Rightarrow> Inl e
      | Inr sd' \<Rightarrow> process_rows B S sd' rows)"

subsection \<open>\<^verbatim>\<open>id_template.format(**fields)\<close> (lines 115, 129)\<close>

fun digits :: "nat \<Rightarrow> string" where
  "digits n =
     (if n < 10 then [char_of (48 + n)] else digits (n div 10) @ [char_of (48 + n mod 10)])"

text \<open>\<^verbatim>\<open>str(v)\<close>, which is what a replacement field with no format spec inserts.\<close>

definition py_str :: "'f builtins \<Rightarrow> 'f pyval \<Rightarrow> string" where
  "py_str B v =
     (case v of
        VStr s \<Rightarrow> s
      | VInt i \<Rightarrow> (if i < 0 then CHR ''-'' # digits (nat (- i)) else digits (nat i))
      | VFloat x \<Rightarrow> float_str B x)"

definition is_digit :: "char \<Rightarrow> bool" where
  "is_digit c = (48 \<le> (of_char c :: nat) \<and> (of_char c :: nat) \<le> 57)"

definition decimal_value :: "string \<Rightarrow> nat" where
  "decimal_value s = fold (\<lambda>c n. 10 * n + ((of_char c :: nat) - 48)) s 0"

text \<open>
  The model of \<^verbatim>\<open>str.format\<close> follows CPython 3 (\<^verbatim>\<open>Objects/stringlib/unicode_format.h\<close>,
  version 3.4 and later), called with keyword arguments only.

  One replacement field, given its field name, its conversion character and its format
  spec. The first part of the name runs up to the first \<^verbatim>\<open>.\<close> or \<^verbatim>\<open>[\<close>. When it is
  empty or a number it asks for a positional argument: a number above
  \<^verbatim>\<open>PY_SSIZE_T_MAX\<close> is a ValueError, and since there are no positional arguments every
  other is an IndexError. Otherwise it is looked up among the keywords (absent:
  KeyError). Then come attribute and index access and the conversion, which are the
  interpreter's and may raise; then a format spec that contains \<^verbatim>\<open>{\<close> is itself
  expanded (\<open>expand\<close>); then the value is formatted. With no access, no conversion and
  an empty spec, what is inserted is \<^verbatim>\<open>str\<close> of the value.
\<close>

definition format_field_value :: "'f builtins \<Rightarrow> (string, 'f pyval) dict \<Rightarrow> (string \<Rightarrow> error + string)
    \<Rightarrow> string \<Rightarrow> char option \<Rightarrow> string \<Rightarrow> error + string" where
  "format_field_value B flds expand name conv spec =
     (let first = takeWhile (\<lambda>c. c \<noteq> CHR ''.'' \<and> c \<noteq> CHR ''['') name;
          rest = dropWhile (\<lambda>c. c \<noteq> CHR ''.'' \<and> c \<noteq> CHR ''['') name
      in if list_all is_digit first then
           (if ssize_max B < decimal_value first then Inl ValueError else Inl IndexError)
         else
           (case dict_get flds first of
              None \<Rightarrow> Inl KeyError
            | Some v \<Rightarrow>
                (case (if rest = [] \<and> conv = None then None else field_object_error B v rest conv) of
                   Some e \<Rightarrow> Inl e
                 | None \<Rightarrow>
                     (case (if CHR ''{'' \<in> set spec then expand spec else Inr spec) of
                        Inl e \<Rightarrow> Inl e
                      | Inr sp \<Rightarrow>
                          if rest = [] \<and> conv = None \<and> sp = [] then Inr (py_str B v)
                          else render_field B v rest conv sp))))"

text \<open>The text of one piece followed by the text of the rest; the first error wins.\<close>

definition then_text :: "error + string \<Rightarrow> error + string \<Rightarrow> error + string" where
  "then_text a b =
     (case a of
        Inl e \<Rightarrow> Inl e
      | Inr s \<Rightarrow> (case b of Inl e \<Rightarrow> Inl e | Inr r \<Rightarrow> Inr (s @ r)))"

text \<open>
  The template is read from left to right. In literal text \<^verbatim>\<open>{{\<close> and \<^verbatim>\<open>}}\<close> are
  braces, a single \<^verbatim>\<open>}\<close> and a \<^verbatim>\<open>{\<close> at the very end are ValueErrors. After a
  \<^verbatim>\<open>{\<close> the field name runs to the first \<^verbatim>\<open>}\<close>, \<^verbatim>\<open>:\<close> or \<^verbatim>\<open>!\<close> (\<open>parse_name\<close>);
  a \<^verbatim>\<open>{\<close> in it is a ValueError, and between \<^verbatim>\<open>[\<close> and \<^verbatim>\<open>]\<close> every character is
  part of the name (\<open>parse_index\<close>). After \<^verbatim>\<open>!\<close> comes the conversion character, then
  \<^verbatim>\<open>}\<close> or \<^verbatim>\<open>:\<close>. After \<^verbatim>\<open>:\<close> the format spec runs to the \<^verbatim>\<open>}\<close> that closes the
  field, braces inside it being counted (\<open>parse_spec\<close>, \<open>n\<close> the number of open inner
  braces). A field that the text ends in is a ValueError.
\<close>

fun format_gen :: "'f builtins \<Rightarrow> (string, 'f pyval) dict \<Rightarrow> (string \<Rightarrow> error + string) \<Rightarrow> string
      \<Rightarrow> error + string"
  and parse_name :: "'f builtins \<Rightarrow> (string, 'f pyval) dict \<Rightarrow> (string \<Rightarrow> error + string) \<Rightarrow> string
      \<Rightarrow> string \<Rightarrow> error + string"
  and parse_index :: "'f builtins \<Rightarrow> (string, 'f pyval) dict \<Rightarrow> (string \<Rightarrow> error + string) \<Rightarrow> string
      \<Rightarrow> string \<Rightarrow> error + string"
  and parse_spec :: "'f builtins \<Rightarrow> (string, 'f pyval) dict \<Rightarrow> (string \<Rightarrow> error + string) \<Rightarrow> string
      \<Rightarrow> char option \<Rightarrow> string \<Rightarrow> nat \<Rightarrow> string \<Rightarrow> error + string" where
  "format_gen B flds ex [] = Inr []"
| "format_gen B flds ex (c # cs) =
     (if c = CHR ''{'' then
        (case cs of
           [] \<Rightarrow> Inl ValueError
         | c' # cs' \<Rightarrow>
             if c' = CHR ''{'' then then_text (Inr ''{'') (format_gen B flds ex cs')
             else parse_name B flds ex [] cs)
      else if c = CHR ''}'' then
        (case cs of
           [] \<Rightarrow> Inl ValueError
         | c' # cs' \<Rightarrow>
             if c' = CHR ''}'' then then_text (Inr ''}'') (format_gen B flds ex cs')
             else Inl ValueError)
      else then_text (Inr [c]) (format_gen B flds ex cs))"
| "parse_name B flds ex acc [] = Inl ValueError"
| "parse_name B flds ex acc (c # cs) =
     (if c = CHR ''{'' then Inl ValueError
      else if c = CHR ''['' then parse_index B flds ex (c # acc) cs
      else if c = CHR ''}'' then
        then_text (format_field_value B flds ex (rev acc) None []) (format_gen B flds ex cs)
      else if c = CHR '':'' then parse_spec B flds ex (rev acc) None [] 0 cs
      else if c = CHR ''!'' then
        (case cs of
           [] \<Rightarrow> Inl ValueError
         | v # cs' \<Rightarrow>
             (case cs' of
                [] \<Rightarrow> Inl ValueError
              | d # cs'' \<Rightarrow>
                  if d = CHR ''}'' then
                    then_text (format_field_value B flds ex (rev acc) (Some v) [])
                      (format_gen B flds ex cs'')
                  else if d = CHR '':'' then parse_spec B flds ex (rev acc) (Some v) [] 0 cs''
                  else Inl ValueError))
      else parse_name B flds ex (c # acc) cs)"
| "parse_index B flds ex acc [] = Inl ValueError"
| "parse_index B flds ex acc (c # cs) =
     (if c = CHR '']'' then parse_name B flds ex (c # acc) cs
      else parse_index B flds ex (c # acc) cs)"
| "parse_spec B flds ex name conv acc n [] = Inl ValueError"
| "parse_spec B flds ex name conv acc n (c # cs) =
     (if c = CHR ''{'' then parse_spec B flds ex name conv (c # acc) (Suc n) cs
      else if c = CHR ''}'' then
        (case n of
           0 \<Rightarrow> then_text (format_field_value B flds ex name conv (rev acc)) (format_gen B flds ex cs)
         | Suc m \<Rightarrow> parse_spec B flds ex name conv (c # acc) m cs)
      else parse_spec B flds ex name conv (c # acc) n cs)"

text \<open>
  \<^verbatim>\<open>id_template.format(**fields)\<close>. The call starts with recursion depth 2: the template
  is expanded, a format spec in it that contains a field is expanded with the same
  keywords, and a spec inside such a spec that needs expanding again is a ValueError
  (\<^verbatim>\<open>Max string recursion exceeded\<close>).
\<close>

definition format_text :: "'f builtins \<Rightarrow> (string, 'f pyval) dict \<Rightarrow> string \<Rightarrow> error + string" where
  "format_text B flds tmpl =
     format_gen B flds (format_gen B flds (\<lambda>spec. Inl ValueError)) tmpl"

subsection \<open>Emission (lines 107--133)\<close>

text \<open>
  One pass of either output loop up to the \<^verbatim>\<open>print\<close>: the points are sorted by their
  x component (\<^verbatim>\<open>list.sort\<close> is stable, as \<open>sort_key\<close> is), the identifier is
  rendered, the document is built.
\<close>

definition make_doc :: "'f builtins \<Rightarrow> string \<Rightarrow> 'f series \<Rightarrow> error + 'f series_doc" where
  "make_doc B tmpl s =
     (let pts = sort_key fst (points s)
      in case format_text B (fields_of s) tmpl of
           Inl e \<Rightarrow> Inl e
         | Inr sid \<Rightarrow> Inr \<lparr>series_id = sid, doc_points = pts, doc_fields = fields_of s\<rparr>)"

text \<open>The documents printed before the loop ends or raises, and the error if it raises.\<close>

fun emit :: "'f builtins \<Rightarrow> string \<Rightarrow> 'f series list \<Rightarrow> 'f series_doc list \<times> error option" where
  "emit B tmpl [] = ([], None)"
| "emit B tmpl (s # ss) =
     (case make_doc B tmpl s of
        Inl e \<Rightarrow> ([], Some e)
      | Inr d \<Rightarrow> (let (ds, r) = emit B tmpl ss in (d # ds, r)))"

definition newline :: char where
  "newline = CHR 0x0A"

text \<open>What the array loop writes for the documents, with its \<^verbatim>\<open>first\<close> flag.\<close>

fun print_array :: "'f builtins \<Rightarrow> bool \<Rightarrow> 'f series_doc list \<Rightarrow> string" where
  "print_array B first [] = []"
| "print_array B first (d # ds) =
     (if \<not> first then '','' else []) @ json_dumps B (Some 2) d @ print_array B False ds"

fun print_lines :: "'f builtins \<Rightarrow> 'f series_doc list \<Rightarrow> string" where
  "print_lines B [] = []"
| "print_lines B (d # ds) = json_dumps B None d @ [newline] @ print_lines B ds"

record 'f outcome =
  stdout :: string
  emitted :: "'f series_doc list"
  raised :: "error option"

text \<open>
  \<^verbatim>\<open>generate_json\<close> on the rows of the file. An error in the loop over the rows comes
  before anything is printed; an error during emission leaves what was printed so far.
  \<^verbatim>\<open>print("[")\<close> and \<^verbatim>\<open>print("\n]")\<close> each end with the newline that \<^verbatim>\<open>print\<close> adds.
\<close>

definition generate_json :: "'f builtins \<Rightarrow> (string option \<times> cell) list list \<Rightarrow> schema \<Rightarrow> bool
    \<Rightarrow> 'f outcome" where
  "generate_json B rows S array_output =
     (case process_rows B S [] rows of
        Inl e \<Rightarrow> \<lparr>stdout = [], emitted = [], raised = Some e\<rparr>
      | Inr sd \<Rightarrow>
          (let (ds, r) = emit B (case id_template S of None \<Rightarrow> [] | Some t \<Rightarrow> t) (map snd sd)
           in \<lparr>stdout =
                  (if array_output then
                     [CHR ''['', newline] @ print_array B True ds
                       @ (if r = None then [newline, CHR '']'', newline] else [])
                   else print_lines B ds),
                emitted = ds, raised = r\<rparr>))"

subsection \<open>The grouping that the specification describes\<close>

text \<open>
  The definitions of this subsection are not parts of the script: they say, in the
  words of sections 4.2 and 4.3 of the specification, what each row contributes and how
  the rows are grouped, to be compared with \<open>process_rows\<close>.

  The point of a row (lines 101--104 read as a value): none when the x or y value is
  empty or missing, else the x value as it is and the transformed y value.
\<close>

definition row_point :: "'f builtins \<Rightarrow> points_cfg option \<Rightarrow> (string, string) dict
    \<Rightarrow> error + (string \<times> 'f pyval) option" where
  "row_point B ps row =
     (case (case ps of None \<Rightarrow> None | Some p \<Rightarrow> px p) of
        None \<Rightarrow> Inl AttributeError
      | Some xn \<Rightarrow>
          (case (case ps of None \<Rightarrow> None | Some p \<Rightarrow> py p) of
             None \<Rightarrow> Inl AttributeError
           | Some yn \<Rightarrow>
               (if get_default row (lower xn) [] \<noteq> [] \<and> get_default row (lower yn) [] \<noteq> [] then
                  (case apply_transform B (case ps of None \<Rightarrow> None | Some p \<Rightarrow> ptransform p)
                          (get_default row (lower yn) []) of
                     Inl e \<Rightarrow> Inl e
                   | Inr y \<Rightarrow> Inr (Some (get_default row (lower xn) [], y)))
                else Inr None)))"

text \<open>What one row contributes: its grouping key, its derived fields, its point if any.\<close>

definition row_summary :: "'f builtins \<Rightarrow> schema \<Rightarrow> (string option \<times> cell) list
    \<Rightarrow> error + ('f pyval list \<times> (string, 'f pyval) dict \<times> (string \<times> 'f pyval) option)" where
  "row_summary B S raw =
     (case derive_row B S raw of
        Inl e \<Rightarrow> Inl e
      | Inr (row, flds, k) \<Rightarrow>
          (case row_point B (points_schema S) row of
             Inl e \<Rightarrow> Inl e
           | Inr p \<Rightarrow> Inr (k, flds, p)))"

fun row_summaries :: "'f builtins \<Rightarrow> schema \<Rightarrow> (string option \<times> cell) list list
    \<Rightarrow> error + ('f pyval list \<times> (string, 'f pyval) dict \<times> (string \<times> 'f pyval) option) list" where
  "row_summaries B S [] = Inr []"
| "row_summaries B S (raw # rows) =
     (case row_summary B S raw of
        Inl e \<Rightarrow> Inl e
      | Inr it \<Rightarrow> (case row_summaries B S rows of Inl e \<Rightarrow> Inl e | Inr its \<Rightarrow> Inr (it # its)))"

definition point_list :: "'a option \<Rightarrow> 'a list" where
  "point_list p = (case p of None \<Rightarrow> [] | Some x \<Rightarrow> [x])"

text \<open>
  First write wins, one row at a time (section 4.3): the first series whose key equals
  the row's key, in the order of creation, gets the row's point, if any, and keeps its
  fields; when there is none, a new series is created last, with the row's fields and
  its point.
\<close>

definition first_match :: "'f builtins \<Rightarrow> 'f pyval list \<Rightarrow> ('f pyval list \<times> 'f series) list \<Rightarrow> nat option" where
  "first_match B k sd =
     (case filter (\<lambda>i. key_eq B (fst (sd ! i)) k) [0..<length sd] of
        [] \<Rightarrow> None
      | i # _ \<Rightarrow> Some i)"

definition route :: "'f builtins
    \<Rightarrow> 'f pyval list \<times> (string, 'f pyval) dict \<times> (string \<times> 'f pyval) option
    \<Rightarrow> ('f pyval list \<times> 'f series) list \<Rightarrow> ('f pyval list \<times> 'f series) list" where
  "route B it sd =
     (case first_match B (fst it) sd of
        None \<Rightarrow> sd @ [(fst it, \<lparr>points = point_list (snd (snd it)), fields_of = fst (snd it)\<rparr>)]
      | Some i \<Rightarrow>
          sd[i := (fst (sd ! i),
                   \<lparr>points = points (snd (sd ! i)) @ point_list (snd (snd it)),
                    fields_of = fields_of (snd (sd ! i))\<rparr>)])"

text \<open>
  The same grouping said at once, for keys on which Python's \<^verbatim>\<open>==\<close> is equality of
  values (strings and integers): one series for each key, in the order in which the keys
  first appear; its fields are those of the first row with the key, its points those of
  all rows with the key, in the order of the rows.
\<close>

definition plain_value :: "'f pyval \<Rightarrow> bool" where
  "plain_value v = (case v of VStr _ \<Rightarrow> True | VInt _ \<Rightarrow> True | VFloat _ \<Rightarrow> False)"

definition first_occurrences :: "'a list \<Rightarrow> 'a list" where
  "first_occurrences xs = rev (remdups (rev xs))"

definition series_of_key :: "('f pyval list \<times> (string, 'f pyval) dict \<times> (string \<times> 'f pyval) option) list
    \<Rightarrow> 'f pyval list \<Rightarrow> 'f pyval list \<times> 'f series" where
  "series_of_key items k =
     (k, \<lparr>points = concat (map (\<lambda>it. point_list (snd (snd it))) (filter (\<lambda>it. fst it = k) items)),
          fields_of = (case find (\<lambda>it. fst it = k) items of None \<Rightarrow> [] | Some it \<Rightarrow> fst (snd it))\<rparr>)"

definition grouped_series :: "('f pyval list \<times> (string, 'f pyval) dict \<times> (string \<times> 'f pyval) option) list
    \<Rightarrow> ('f pyval list \<times> 'f series) list" where
  "grouped_series items = map (series_of_key items) (first_occurrences (map fst items))"

subsection \<open>A stand-in interpreter and the inputs of the scenarios\<close>

text \<open>
  To run the model on concrete inputs the builtins need values. This stand-in has the
  integers as floats; its \<^verbatim>\<open>float\<close> and \<^verbatim>\<open>int\<close> read a non-empty string of decimal
  digits and reject everything else. It is used at strings of digits, where Python's
  \<^verbatim>\<open>float\<close> gives the float of that integer, and at \<^verbatim>\<open>"abc"\<close> and the empty
  string, where it raises ValueError. The inputs below have plain \<^verbatim>\<open>{name}\<close>
  placeholders only, so access, conversion and format specs are never asked of it. The
  text it prints for a document is only the identifier.
\<close>

definition demo_number :: "string \<Rightarrow> int option" where
  "demo_number s =
     (if s \<noteq> [] \<and> list_all is_digit s
      then Some (fold (\<lambda>c n. 10 * n + (of_char c - 48)) s 0) else None)"

definition demo_float_str :: "int \<Rightarrow> string" where
  "demo_float_str x =
     (if x < 0 then CHR ''-'' # digits (nat (- x)) else digits (nat x)) @ ''.0''"

definition demo_builtins :: "int builtins" where
  "demo_builtins =
     \<lparr>py_float = demo_number, py_int = demo_number, float_eq = (=), int_eq_float = (=),
      float_str = demo_float_str,
      field_object_error = (\<lambda>v rest conv. None),
      render_field = (\<lambda>v rest conv spec. Inl ValueError),
      ssize_max = 9223372036854775807,
      json_dumps = (\<lambda>_ d. series_id d)\<rparr>"

text \<open>A line with as many cells as the header: every column has the text of its cell.\<close>

definition text_row :: "(string \<times> string) list \<Rightarrow> (string option \<times> cell) list" where
  "text_row r = map (\<lambda>(k, v). (Some k, Text v)) r"

text \<open>Scenario A of the specification.\<close>

definition scenario_a_schema :: schema where
  "scenario_a_schema =
     \<lparr>group_by = Some [''category''],
      fields_schema = Some [(''category'', \<lparr>source = Some ''category'', transform = None\<rparr>)],
      points_schema = Some \<lparr>px = Some ''x'', py = Some ''y'', ptransform = Some ''float''\<rparr>,
      id_template = None, mappings = None\<rparr>"

definition scenario_a_rows :: "(string option \<times> cell) list list" where
  "scenario_a_rows = map text_row
     [[(''category'', ''A''), (''x'', ''1''), (''y'', ''10'')],
      [(''category'', ''A''), (''x'', ''2''), (''y'', ''20'')]]"

text \<open>Two rows of one group whose x values arrive out of order: \<^verbatim>\<open>"2"\<close>, then \<^verbatim>\<open>"10"\<close>.\<close>

definition unordered_rows :: "(string option \<times> cell) list list" where
  "unordered_rows = map text_row
     [[(''category'', ''A''), (''x'', ''2''), (''y'', ''20'')],
      [(''category'', ''A''), (''x'', ''10''), (''y'', ''10'')]]"


text \<open>Scenario B: a row with no y value.\<close>

definition scenario_b_row :: "(string option \<times> cell) list" where
  "scenario_b_row = text_row [(''category'', ''A''), (''x'', ''1''), (''y'', [])]"

text \<open>
  The schema of scenario A with one more field, \<^verbatim>\<open>amount\<close>, a \<^verbatim>\<open>float\<close> read from
  the y column.
\<close>

definition amount_schema :: schema where
  "amount_schema =
     \<lparr>group_by = Some [''category''],
      fields_schema = Some [(''category'', \<lparr>source = Some ''category'', transform = None\<rparr>),
                            (''amount'', \<lparr>source = Some ''y'', transform = Some ''float''\<rparr>)],
      points_schema = Some \<lparr>px = Some ''x'', py = Some ''y'', ptransform = Some ''float''\<rparr>,
      id_template = None, mappings = None\<rparr>"

text \<open>A schema that groups by a field \<^verbatim>\<open>g\<close> it does not declare, and a row for it.\<close>

definition undeclared_schema :: schema where
  "undeclared_schema =
     \<lparr>group_by = Some [''g''],
      fields_schema = Some [(''v'', \<lparr>source = Some ''v'', transform = Some ''float''\<rparr>)],
      points_schema = Some \<lparr>px = Some ''x'', py = Some ''y'', ptransform = None\<rparr>,
      id_template = None, mappings = None\<rparr>"

definition undeclared_row :: "string \<Rightarrow> (string option \<times> cell) list" where
  "undeclared_row v = text_row [(''v'', v), (''x'', ''1''), (''y'', ''2'')]"

text \<open>A schema with every section but \<^verbatim>\<open>points\<close>.\<close>

definition no_points_schema :: schema where
  "no_points_schema =
     \<lparr>group_by = Some [''category''],
      fields_schema = Some [(''category'', \<lparr>source = Some ''category'', transform = None\<rparr>)],
      points_schema = None, id_template = Some ''{category}'', mappings = Some []\<rparr>"

text \<open>
  Scenario C: the mapping table of column \<^verbatim>\<open>sex\<close>; and a \<^verbatim>\<open>mappings\<close> section with
  two columns, \<^verbatim>\<open>Sex\<close> and \<^verbatim>\<open>sex\<close>, that have the same lower-cased name.
\<close>

definition scenario_c_mappings :: "(string, (string, string) dict) dict" where
  "scenario_c_mappings = [(''sex'', [(''M'', ''Male''), (''F'', ''Female'')])]"

definition colliding_mappings :: "(string, (string, string) dict) dict" where
  "colliding_mappings = [(''Sex'', [(''M'', ''Male'')]), (''sex'', [(''Male'', ''X'')])]"

subsection \<open>An invariant of the series dictionary\<close>

text \<open>
  Every row derives a field mapping with the keys of the \<^verbatim>\<open>fields\<close> section, so a
  stored field mapping is empty only when that section is: the test
  \<^verbatim>\<open>if not series_dict[key]["fields"]\<close> then succeeds on every row and stores the empty
  mapping again.
\<close>

definition fields_inv :: "schema \<Rightarrow> ('f pyval list \<times> 'f series) list \<Rightarrow> bool" where
  "fields_inv S sd \<longleftrightarrow>
     (\<forall>e \<in> set sd. fields_of (snd e) = [] \<longrightarrow>
        (case fields_schema S of None \<Rightarrow> [] | Some fs \<Rightarrow> fs) = [])"

subsection \<open>An input with two groups\<close>

text \<open>A schema with a field, \<^verbatim>\<open>label\<close>, outside the grouping key.\<close>

definition label_schema :: schema where
  "label_schema =
     \<lparr>group_by = Some [''category''],
      fields_schema = Some [(''category'', \<lparr>source = Some ''category'', transform = None\<rparr>),
                            (''label'', \<lparr>source = Some ''label'', transform = None\<rparr>)],
      points_schema = Some \<lparr>px = Some ''x'', py = Some ''y'', ptransform = None\<rparr>,
      id_template = None, mappings = None\<rparr>"

text \<open>Rows of two groups, the second group arriving between the rows of the first.\<close>

definition two_group_rows :: "(string option \<times> cell) list list" where
  "two_group_rows = map text_row
     [[(''category'', ''A''), (''label'', ''first''), (''x'', ''1''), (''y'', ''10'')],
      [(''category'', ''B''), (''label'', ''other''), (''x'', ''5''), (''y'', ''50'')],
      [(''category'', ''A''), (''label'', ''second''), (''x'', ''2''), (''y'', ''20'')]]"

section \<open>Properties\<close>

subsection \<open>Evaluation on the scenario inputs\<close>

lemma lower_simps:
  "lower ''category'' = ''category''" "lower ''x'' = ''x''" "lower ''y'' = ''y''"
  "lower ''label'' = ''label''" "lower ''v'' = ''v''"
  by (simp_all add: lower_def lower_char_def)

lemma strip_simps:
  "strip ''A'' = ''A''" "strip ''B'' = ''B''" "strip ''1'' = ''1''" "strip ''2'' = ''2''"
  "strip ''5'' = ''5''" "strip ''10'' = ''10''" "strip ''20'' = ''20''" "strip ''50'' = ''50''"
  "strip ''first'' = ''first''" "strip ''second'' = ''second''" "strip ''other'' = ''other''"
  "strip ''abc'' = ''abc''" "strip [] = []"
  by (simp_all add: strip_def isspace_def)

lemma demo_number_simps:
  "demo_number ''10'' = Some 10" "demo_number ''20'' = Some 20" "demo_number ''abc'' = None"
  "demo_number [] = None"
  by (simp_all add: demo_number_def is_digit_def)

lemma string_items_text_row [simp]: "string_items (text_row r) = Inr r"
  by (induction r) (auto simp: text_row_def)

lemmas run_defs =
  generate_json_def process_row_def derive_row_def apply_mappings_def apply_mapping_def
  normalize_row_def get_default_def apply_transform_def init_fields_def subscript_def
  upd_series_def add_points_def key_eq_def make_doc_def format_text_def

text \<open>
  C1 (scenario A). The two rows \<^verbatim>\<open>category=A,x=1,y=10\<close> and \<^verbatim>\<open>category=A,x=2,y=20\<close>,
  grouped by \<^verbatim>\<open>category\<close> with the points transform \<^verbatim>\<open>"float"\<close>, give exactly one
  document, in either output mode and with no error; its points are
  \<^verbatim>\<open>[["1", 10.0], ["2", 20.0]]\<close>, where \<open>a\<close> and \<open>b\<close> are the floats that
  \<^verbatim>\<open>float("10")\<close> and \<^verbatim>\<open>float("20")\<close> return.
\<close>

theorem scenario_a_one_series:
  assumes "py_float B ''10'' = Some a" and "py_float B ''20'' = Some b"
  shows "emitted (generate_json B scenario_a_rows scenario_a_schema arr)
           = [\<lparr>series_id = [], doc_points = [(''1'', VFloat a), (''2'', VFloat b)],
               doc_fields = [(''category'', VStr ''A'')]\<rparr>]
         \<and> raised (generate_json B scenario_a_rows scenario_a_schema arr) = None"
  using assms
  by (simp add: run_defs scenario_a_rows_def scenario_a_schema_def lower_simps strip_simps)

theorem scenario_a_one_series_witness:
  "py_float demo_builtins ''10'' = Some 10 \<and> py_float demo_builtins ''20'' = Some 20
   \<and> emitted (generate_json demo_builtins scenario_a_rows scenario_a_schema False)
       = [\<lparr>series_id = [], doc_points = [(''1'', VFloat 10), (''2'', VFloat 20)],
           doc_fields = [(''category'', VStr ''A'')]\<rparr>]"
proof -
  have f10: "py_float demo_builtins ''10'' = Some 10"
    and f20: "py_float demo_builtins ''20'' = Some 20"
    by (simp_all add: demo_builtins_def demo_number_simps)
  from scenario_a_one_series [OF f10 f20, of False] f10 f20 show ?thesis by simp
qed

text \<open>
  C5 (scenario E). In array mode with no input rows the script prints \<^verbatim>\<open>[\<close> and then
  \<^verbatim>\<open>\n]\<close>, each \<^verbatim>\<open>print\<close> ending its line: the output is the three lines \<^verbatim>\<open>[\<close>,
  an empty line and \<^verbatim>\<open>]\<close>, that is the bytes \<^verbatim>\<open>[ \n \n ] \n\<close>, with nothing between
  the brackets, no document and no error, whatever the schema.
\<close>

theorem array_output_no_rows:
  "stdout (generate_json B [] S True) = [CHR ''['', newline, newline, CHR '']'', newline]
   \<and> emitted (generate_json B [] S True) = []
   \<and> raised (generate_json B [] S True) = None"
  by (simp add: generate_json_def)

subsection \<open>Emission: sorted points\<close>

lemma make_doc_sorted:
  "make_doc B tmpl s = Inr d \<Longrightarrow> sorted (map fst (doc_points d))"
  by (auto simp: make_doc_def Let_def split: sum.splits)

lemma emit_sorted:
  "d \<in> set (fst (emit B tmpl ss)) \<Longrightarrow> sorted (map fst (doc_points d))"
proof (induction ss)
  case Nil
  then show ?case by simp
next
  case (Cons s ss)
  show ?case
  proof (cases "make_doc B tmpl s")
    case (Inl e)
    with Cons.prems show ?thesis by simp
  next
    case (Inr d0)
    with Cons.prems have "d = d0 \<or> d \<in> set (fst (emit B tmpl ss))"
      by (auto split: prod.splits)
    then show ?thesis using Inr Cons.IH make_doc_sorted by blast
  qed
qed

lemma emitted_eq:
  "emitted (generate_json B rows S arr) =
     (case process_rows B S [] rows of
        Inl e \<Rightarrow> []
      | Inr sd \<Rightarrow> fst (emit B (case id_template S of None \<Rightarrow> [] | Some t \<Rightarrow> t) (map snd sd)))"
  by (simp add: generate_json_def split: sum.splits prod.splits)

text \<open>
  C3. In every document that \<^verbatim>\<open>generate_json\<close> emits, in either mode, for every input
  and schema (also when a later series makes the run fail), the points are in
  non-decreasing order of their x component, compared as strings by code point.
\<close>

theorem points_sorted_by_x:
  "\<forall>d \<in> set (emitted (generate_json B rows S arr)). sorted (map fst (doc_points d))"
  by (auto simp: emitted_eq dest: emit_sorted split: sum.splits)

theorem points_sorted_by_x_witness:
  "emitted (generate_json demo_builtins unordered_rows scenario_a_schema False)
     = [\<lparr>series_id = [], doc_points = [(''10'', VFloat 10), (''2'', VFloat 20)],
         doc_fields = [(''category'', VStr ''A'')]\<rparr>]
   \<and> sorted (map fst [(''10'', VFloat (10::int)), (''2'', VFloat 20)])"
proof -
  have run: "emitted (generate_json demo_builtins unordered_rows scenario_a_schema False)
      = [\<lparr>series_id = [], doc_points = [(''10'', VFloat 10), (''2'', VFloat 20)],
          doc_fields = [(''category'', VStr ''A'')]\<rparr>]"
    by (simp add: run_defs unordered_rows_def scenario_a_schema_def lower_simps strip_simps
        demo_builtins_def demo_number_simps)
  from points_sorted_by_x [of demo_builtins unordered_rows scenario_a_schema False]
  show ?thesis unfolding run by simp
qed

subsection \<open>Emission: the series identifier\<close>

lemma then_text_Inr_Nil [simp]: "then_text (Inr []) b = b"
  by (simp add: then_text_def split: sum.splits)










subsection \<open>The loop body: points\<close>

lemma find_key_less: "find_key B k sd = Some i \<Longrightarrow> i < length sd"
  by (induction sd arbitrary: i) (auto split: if_splits option.splits)

lemma upd_series_length [simp]: "length (upd_series i f sd) = length sd"
  by (simp add: upd_series_def)

lemma upd_series_nth:
  "j < length sd \<Longrightarrow>
   upd_series i f sd ! j = (if j = i then (fst (sd ! j), f (snd (sd ! j))) else sd ! j)"
  by (simp add: upd_series_def nth_list_update)

lemma upd_series_points:
  assumes "\<And>s. points (f s) = points s"
  shows "map (\<lambda>e. points (snd e)) (upd_series i f sd) = map (\<lambda>e. points (snd e)) sd"
  by (rule nth_equalityI) (simp_all add: upd_series_nth assms)

lemma init_fields_found:
  "find_key B k sd = Some i \<Longrightarrow>
   init_fields B k flds sd =
     (upd_series i (\<lambda>s. if fields_of s = [] then s\<lparr>fields_of := flds\<rparr> else s) sd, i)"
  by (simp add: init_fields_def subscript_def)

lemma init_fields_new:
  "find_key B k sd = None \<Longrightarrow>
   init_fields B k flds sd = (sd @ [(k, \<lparr>points = [], fields_of = flds\<rparr>)], length sd)"
  by (simp add: init_fields_def subscript_def upd_series_def)

text \<open>
  C6, as the code has it (scenario B). Take a row with a string in every column whose
  fields and grouping key derive without error, under a schema whose points section
  names the x and y columns. When the row's x value or y value is empty or missing, the
  loop body ends without error and appends no point: the points of every series already
  present are what they were, and when no series has the row's key, one is created at
  the end with the row's derived fields and no points.
\<close>

theorem empty_xy_skips_point:
  assumes "derive_row B S raw = Inr (row, flds, k)"
    and "points_schema S = Some p" and "px p = Some xn" and "py p = Some yn"
    and "get_default row (lower xn) [] = [] \<or> get_default row (lower yn) [] = []"
  shows "process_row B S sd raw = Inr (fst (init_fields B k flds sd))
    \<and> map (\<lambda>e. points (snd e)) (fst (init_fields B k flds sd))
        = map (\<lambda>e. points (snd e)) sd @ (if find_key B k sd = None then [[]] else [])
    \<and> (find_key B k sd = None \<longrightarrow>
         fst (init_fields B k flds sd) = sd @ [(k, \<lparr>points = [], fields_of = flds\<rparr>)])"
proof -
  have run: "process_row B S sd raw = Inr (fst (init_fields B k flds sd))"
    using assms by (auto simp: process_row_def add_points_def Let_def split: prod.splits)
  have pts: "map (\<lambda>e. points (snd e)) (fst (init_fields B k flds sd))
        = map (\<lambda>e. points (snd e)) sd @ (if find_key B k sd = None then [[]] else [])"
  proof (cases "find_key B k sd")
    case None
    then show ?thesis by (simp add: init_fields_new)
  next
    case (Some i)
    then show ?thesis by (simp add: init_fields_found upd_series_points)
  qed
  show ?thesis using run pts by (simp add: init_fields_new)
qed

theorem empty_xy_skips_point_witness:
  "derive_row demo_builtins scenario_a_schema scenario_b_row
     = Inr ([(''category'', ''A''), (''x'', ''1''), (''y'', [])],
            [(''category'', VStr ''A'')], [VStr ''A''])
   \<and> process_row demo_builtins scenario_a_schema [] scenario_b_row
     = Inr [([VStr ''A''], \<lparr>points = [], fields_of = [(''category'', VStr ''A'')]\<rparr>)]"
proof -
  have d: "derive_row demo_builtins scenario_a_schema scenario_b_row
     = Inr ([(''category'', ''A''), (''x'', ''1''), (''y'', [])],
            [(''category'', VStr ''A'')], [VStr ''A''])"
    by (simp add: run_defs scenario_b_row_def scenario_a_schema_def lower_simps strip_simps)
  have p: "points_schema scenario_a_schema
      = Some \<lparr>px = Some ''x'', py = Some ''y'', ptransform = Some ''float''\<rparr>"
    by (simp add: scenario_a_schema_def)
  have e: "get_default [(''category'', ''A''), (''x'', ''1''), (''y'', [])] (lower ''x'') [] = []
      \<or> get_default [(''category'', ''A''), (''x'', ''1''), (''y'', [])] (lower ''y'') [] = []"
    by (simp add: get_default_def lower_simps)
  from empty_xy_skips_point [OF d p _ _ e, of "[]"] d show ?thesis
    by (simp add: init_fields_new)
qed

text \<open>
  The claim as stated fails where the row raises before line 103 is reached: here the
  schema also derives a \<^verbatim>\<open>float\<close> field from the y column, and \<^verbatim>\<open>float("")\<close> on the
  row's empty y value raises ValueError at line 91.
\<close>

theorem empty_xy_skips_point_counterexample:
  "get_default [(''category'', ''A''), (''x'', ''1''), (''y'', [])] (lower ''y'') [] = []
   \<and> raised (generate_json demo_builtins [scenario_b_row] amount_schema False) = Some ValueError"
  by (simp add: run_defs scenario_b_row_def amount_schema_def lower_simps strip_simps
      demo_builtins_def demo_number_simps)

subsection \<open>The loop body: the grouping key\<close>

lemma dict_get_None: "dict_get d k = None \<longleftrightarrow> k \<notin> fst ` set d"
proof (induction d)
  case Nil
  then show ?case by simp
next
  case (Cons a d)
  then show ?case by (cases a) auto
qed

lemma dict_set_keys: "fst ` set (dict_set d k v) = insert k (fst ` set d)"
proof (induction d)
  case Nil
  then show ?case by simp
next
  case (Cons a d)
  then show ?case by (cases a) auto
qed

lemma map_fields_keys:
  "map_fields B row fs acc = Inr flds \<Longrightarrow> fst ` set flds = fst ` set acc \<union> fst ` set fs"
proof (induction fs arbitrary: acc)
  case Nil
  then show ?case by simp
next
  case (Cons a fs)
  obtain key cfg where a: "a = (key, cfg)" by (cases a)
  from Cons.prems obtain src v where
    "map_fields B row fs (dict_set acc key v) = Inr flds"
    by (auto simp: a split: option.splits sum.splits)
  from Cons.IH [OF this] show ?case by (auto simp: a dict_set_keys)
qed

lemma group_key_error: "group_key flds gs = Inl e \<Longrightarrow> e = KeyError"
  by (induction gs arbitrary: e) (auto split: option.splits sum.splits)

lemma group_key_missing:
  "g \<in> set gs \<Longrightarrow> dict_get flds g = None \<Longrightarrow> group_key flds gs = Inl KeyError"
proof (induction gs)
  case Nil
  then show ?case by simp
next
  case (Cons a gs)
  show ?case
  proof (cases "dict_get flds a")
    case None
    then show ?thesis by simp
  next
    case (Some v)
    with Cons have "group_key flds gs = Inl KeyError" by auto
    with Some show ?thesis by simp
  qed
qed

lemma generate_json_first_row_error:
  "process_row B S [] raw = Inl e \<Longrightarrow>
   generate_json B (raw # rows) S arr = \<lparr>stdout = [], emitted = [], raised = Some e\<rparr>"
  by (simp add: generate_json_def)

lemma process_row_derive_error:
  "derive_row B S raw = Inl e \<Longrightarrow> process_row B S sd raw = Inl e"
  by (simp add: process_row_def)

text \<open>
  C10, as the code has it. When \<^verbatim>\<open>group_by\<close> names a field that the \<^verbatim>\<open>fields\<close>
  section does not declare, any input with at least one row aborts on its first row,
  before anything is printed. The error is exactly this: the AttributeError of line 79
  when the row has a column without a cell or surplus cells; else the error that
  deriving the declared fields raises (lines 89--91) when it raises; and else the
  KeyError of the grouping key.
\<close>

theorem undeclared_group_field:
  assumes "group_by S = Some gs" and "g \<in> set gs"
    and "g \<notin> fst ` set (case fields_schema S of None \<Rightarrow> [] | Some fs \<Rightarrow> fs)"
  shows "generate_json B (raw # rows) S arr =
     \<lparr>stdout = [], emitted = [],
      raised = Some (case string_items raw of
                       Inl e \<Rightarrow> e
                     | Inr items \<Rightarrow>
                         (case map_fields B
                                 (apply_mappings (case mappings S of None \<Rightarrow> [] | Some m \<Rightarrow> m)
                                    (normalize_row items))
                                 (case fields_schema S of None \<Rightarrow> [] | Some fs \<Rightarrow> fs) [] of
                            Inl e \<Rightarrow> e
                          | Inr flds \<Rightarrow> KeyError))\<rparr>"
proof (cases "string_items raw")
  case (Inl e)
  then have "derive_row B S raw = Inl e" by (simp add: derive_row_def)
  then show ?thesis
    using Inl generate_json_first_row_error [OF process_row_derive_error] by simp
next
  case (Inr items)
  let ?row = "apply_mappings (case mappings S of None \<Rightarrow> [] | Some m \<Rightarrow> m) (normalize_row items)"
  let ?fs = "case fields_schema S of None \<Rightarrow> [] | Some fs \<Rightarrow> fs"
  show ?thesis
  proof (cases "map_fields B ?row ?fs []")
    case (Inl e)
    then have "derive_row B S raw = Inl e" using Inr by (simp add: derive_row_def)
    then show ?thesis
      using Inl Inr generate_json_first_row_error [OF process_row_derive_error] by simp
  next
    case (Inr flds)
    from map_fields_keys [OF Inr] assms(3) have "dict_get flds g = None"
      by (simp add: dict_get_None)
    from group_key_missing [OF assms(2) this] Inr assms(1) \<open>string_items raw = Inr items\<close>
    have "derive_row B S raw = Inl KeyError" by (simp add: derive_row_def)
    then show ?thesis
      using Inr \<open>string_items raw = Inr items\<close>
        generate_json_first_row_error [OF process_row_derive_error] by simp
  qed
qed

theorem undeclared_group_field_witness:
  "generate_json demo_builtins [undeclared_row ''10''] undeclared_schema False
     = \<lparr>stdout = [], emitted = [], raised = Some KeyError\<rparr>
   \<and> generate_json demo_builtins [[(Some ''v'', NoValue)]] undeclared_schema False
     = \<lparr>stdout = [], emitted = [], raised = Some AttributeError\<rparr>"
proof -
  have g: "group_by undeclared_schema = Some [''g'']" "''g'' \<in> set [''g'']"
    "''g'' \<notin> fst ` set (case fields_schema undeclared_schema of None \<Rightarrow> [] | Some fs \<Rightarrow> fs)"
    by (simp_all add: undeclared_schema_def)
  have m: "map_fields demo_builtins
      (apply_mappings (case mappings undeclared_schema of None \<Rightarrow> [] | Some m \<Rightarrow> m)
         (normalize_row [(''v'', ''10''), (''x'', ''1''), (''y'', ''2'')]))
      (case fields_schema undeclared_schema of None \<Rightarrow> [] | Some fs \<Rightarrow> fs) []
      = Inr [(''v'', VFloat 10)]"
    by (simp add: run_defs undeclared_schema_def lower_simps strip_simps
        demo_builtins_def demo_number_simps)
  from undeclared_group_field [OF g, of demo_builtins "undeclared_row ''10''" "[]" False]
    undeclared_group_field [OF g, of demo_builtins "[(Some ''v'', NoValue)]" "[]" False] m
  show ?thesis by (simp add: undeclared_row_def)
qed

text \<open>
  The claim as stated fails where the first row's declared field does not parse:
  \<^verbatim>\<open>float("abc")\<close> raises ValueError before the grouping key is computed.
\<close>

theorem undeclared_group_field_counterexample:
  "raised (generate_json demo_builtins [undeclared_row ''abc''] undeclared_schema False)
     = Some ValueError
   \<and> raised (generate_json demo_builtins [undeclared_row ''abc''] undeclared_schema False)
     \<noteq> Some KeyError"
  by (simp add: run_defs undeclared_schema_def undeclared_row_def lower_simps strip_simps
      demo_builtins_def demo_number_simps)

subsection \<open>A schema without its points section\<close>

lemma process_row_no_points:
  assumes "(case points_schema S of None \<Rightarrow> None | Some p \<Rightarrow> px p) = None
      \<or> (case points_schema S of None \<Rightarrow> None | Some p \<Rightarrow> py p) = None"
    and "derive_row B S raw = Inr r"
  shows "process_row B S sd raw = Inl AttributeError"
  using assms
  by (cases r) (auto simp: process_row_def add_points_def Let_def split: prod.splits option.splits)

lemma omitted_group_by_fields:
  assumes "group_by S = None" and "fields_schema S = None" and "string_items raw = Inr items"
  shows "derive_row B S raw =
     Inr (apply_mappings (case mappings S of None \<Rightarrow> [] | Some m \<Rightarrow> m) (normalize_row items), [], [])"
  using assms by (simp add: derive_row_def)

text \<open>
  C4. The schema is read with default-empty lookups (lines 60--64), and \<^verbatim>\<open>group_by\<close>
  and \<^verbatim>\<open>fields\<close> left out do degrade to the empty key and the empty field mapping. With
  \<^verbatim>\<open>points\<close> left out the default \<^verbatim>\<open>{}\<close> is read with \<^verbatim>\<open>.get("x")\<close>, which gives
  \<^verbatim>\<open>None\<close>, and line 101 calls \<^verbatim>\<open>.lower()\<close> on it: on this schema, which has every
  other section, the one row of scenario A's first line ends the run with
  AttributeError and nothing printed, where the claim has the row processed and no
  point emitted.
\<close>

theorem omitted_points_raises:
  "generate_json demo_builtins [hd scenario_a_rows] no_points_schema False
     = \<lparr>stdout = [], emitted = [], raised = Some AttributeError\<rparr>"
proof -
  have p: "(case points_schema no_points_schema of None \<Rightarrow> None | Some p \<Rightarrow> px p) = None
      \<or> (case points_schema no_points_schema of None \<Rightarrow> None | Some p \<Rightarrow> py p) = None"
    by (simp add: no_points_schema_def)
  have d: "derive_row demo_builtins no_points_schema (hd scenario_a_rows)
      = Inr ([(''category'', ''A''), (''x'', ''1''), (''y'', ''10'')],
             [(''category'', VStr ''A'')], [VStr ''A''])"
    by (simp add: run_defs scenario_a_rows_def no_points_schema_def lower_simps strip_simps)
  from process_row_no_points [OF p d]
  show ?thesis by (rule generate_json_first_row_error)
qed

subsection \<open>The normaliser\<close>

lemma dict_get_dict_set:
  "dict_get (dict_set d k v) k' = (if k' = k then Some v else dict_get d k')"
  by (induction d) auto

lemma find_snoc:
  "find P (xs @ [x]) = (case find P xs of None \<Rightarrow> (if P x then Some x else None) | Some y \<Rightarrow> Some y)"
  by (induction xs) auto

lemma normalize_fold_get:
  "dict_get (fold (\<lambda>(k, v) d. dict_set d (lower k) (strip v)) raw d0) c =
     (case find (\<lambda>kv. lower (fst kv) = c) (rev raw) of
        None \<Rightarrow> dict_get d0 c
      | Some kv \<Rightarrow> Some (strip (snd kv)))"
proof (induction raw arbitrary: d0)
  case Nil
  then show ?case by simp
next
  case (Cons a raw)
  obtain k v where a: "a = (k, v)" by (cases a)
  show ?case
    by (simp add: a Cons.IH find_snoc dict_get_dict_set split: option.splits)
qed

lemma normalize_row_get:
  "dict_get (normalize_row raw) c =
     (case find (\<lambda>kv. lower (fst kv) = c) (rev raw) of
        None \<Rightarrow> None
      | Some kv \<Rightarrow> Some (strip (snd kv)))"
  by (simp add: normalize_row_def normalize_fold_get split: option.splits)

lemma apply_mapping_get:
  "dict_get (apply_mapping cm row) c =
     (if lower (fst cm) = c then map_option (\<lambda>v. get_default (snd cm) v v) (dict_get row c)
      else dict_get row c)"
  by (simp add: apply_mapping_def Let_def dict_get_dict_set split: option.splits)

lemma find_None_lower:
  "c \<notin> set (map (\<lambda>cm. lower (fst cm)) ms) \<Longrightarrow> find (\<lambda>cm. lower (fst cm) = c) ms = None"
  by (induction ms) auto

lemma apply_mappings_get:
  assumes "distinct (map (\<lambda>cm. lower (fst cm)) ms)"
  shows "dict_get (fold apply_mapping ms row) c =
     (case find (\<lambda>cm. lower (fst cm) = c) ms of
        None \<Rightarrow> dict_get row c
      | Some cm \<Rightarrow> map_option (\<lambda>v. get_default (snd cm) v v) (dict_get row c))"
  using assms
proof (induction ms arbitrary: row)
  case Nil
  then show ?case by simp
next
  case (Cons cm ms)
  from Cons.prems have d: "distinct (map (\<lambda>cm. lower (fst cm)) ms)"
    and n: "lower (fst cm) \<notin> set (map (\<lambda>cm. lower (fst cm)) ms)" by simp_all
  show ?case
  proof (cases "lower (fst cm) = c")
    case True
    with n have "find (\<lambda>cm. lower (fst cm) = c) ms = None" by (simp add: find_None_lower)
    then show ?thesis using True by (simp add: Cons.IH [OF d] apply_mapping_get)
  next
    case False
    then show ?thesis by (simp add: Cons.IH [OF d] apply_mapping_get split: option.splits)
  qed
qed

text \<open>
  C8, as the code has it (scenario C). The normalised record, read as a mapping: it has
  a key \<open>c\<close> exactly when some input column lower-cases to \<open>c\<close>, and its value is the
  trimmed cell of that column (of the last such column, if several). When no two columns
  of \<^verbatim>\<open>mappings\<close> have the same lower-cased name, a column named in \<^verbatim>\<open>mappings\<close> has
  its trimmed value replaced by the table's text when the trimmed value is a key of the
  table, and every other value is left as trimmed; nothing raises.
\<close>

theorem normalizer_record:
  assumes "distinct (map (\<lambda>cm. lower (fst cm)) ms)"
  shows "dict_get (apply_mappings ms (normalize_row raw)) c =
     (case find (\<lambda>kv. lower (fst kv) = c) (rev raw) of
        None \<Rightarrow> None
      | Some kv \<Rightarrow>
          Some (case find (\<lambda>cm. lower (fst cm) = c) ms of
                  None \<Rightarrow> strip (snd kv)
                | Some cm \<Rightarrow> get_default (snd cm) (strip (snd kv)) (strip (snd kv))))"
  by (simp add: apply_mappings_def apply_mappings_get [OF assms] normalize_row_get
      split: option.splits)

theorem normalizer_record_witness:
  "distinct (map (\<lambda>cm. lower (fst cm)) scenario_c_mappings)
   \<and> dict_get (apply_mappings scenario_c_mappings (normalize_row [(''Sex'', '' M '')])) ''sex''
     = Some ''Male''"
proof -
  have d: "distinct (map (\<lambda>cm. lower (fst cm)) scenario_c_mappings)"
    by (simp add: scenario_c_mappings_def)
  have l: "lower ''Sex'' = ''sex''" "lower ''sex'' = ''sex''" "strip '' M '' = ''M''"
    by code_simp+
  from normalizer_record [OF d, of "[(''Sex'', '' M '')]" "''sex''"] d show ?thesis
    by (simp add: l scenario_c_mappings_def get_default_def)
qed

text \<open>
  The claim as stated fails when two columns of \<^verbatim>\<open>mappings\<close> differ only in case: the
  loop at lines 82--85 applies both tables in turn to the same cell, so \<^verbatim>\<open>"M"\<close> becomes
  \<^verbatim>\<open>"Male"\<close> and then \<^verbatim>\<open>"X"\<close>, which is what neither table gives for \<^verbatim>\<open>"M"\<close>.
\<close>

theorem normalizer_record_counterexample:
  "dict_get (apply_mappings colliding_mappings (normalize_row [(''sex'', ''M'')])) ''sex''
     = Some ''X''
   \<and> get_default [(''M'', ''Male'')] ''M'' ''M'' = ''Male''
   \<and> get_default [(''Male'', ''X'')] ''M'' ''M'' = ''M''"
  by code_simp

subsection \<open>Grouping: what a row leaves unchanged\<close>

lemma image_fst_empty: "fst ` set xs = fst ` set ys \<Longrightarrow> xs = [] \<longleftrightarrow> ys = []"
  by (cases xs; cases ys) auto

lemma derive_row_fields_empty:
  assumes "derive_row B S raw = Inr (row, flds, k)"
  shows "flds = [] \<longleftrightarrow> (case fields_schema S of None \<Rightarrow> [] | Some fs \<Rightarrow> fs) = []"
proof -
  define fs where "fs = (case fields_schema S of None \<Rightarrow> [] | Some fs \<Rightarrow> fs)"
  from assms have "\<exists>r. map_fields B r fs [] = Inr flds"
    unfolding fs_def by (auto simp: derive_row_def Let_def split: sum.splits)
  then obtain r where "map_fields B r fs [] = Inr flds" ..
  from map_fields_keys [OF this] have "fst ` set flds = fst ` set fs" by simp
  then show ?thesis unfolding fs_def [symmetric] by (rule image_fst_empty)
qed

lemma add_points_cases:
  assumes "add_points B ps row i sd1 = Inr sd'"
  shows "sd' = sd1 \<or> (\<exists>p. sd' = upd_series i (\<lambda>s. s\<lparr>points := points s @ [p]\<rparr>) sd1)"
  using assms
  by (auto simp: add_points_def Let_def split: option.splits sum.splits if_splits)

lemma add_points_nth:
  assumes "add_points B ps row i sd1 = Inr sd'"
  shows "length sd' = length sd1
    \<and> (\<forall>j < length sd1. fst (sd' ! j) = fst (sd1 ! j)
          \<and> fields_of (snd (sd' ! j)) = fields_of (snd (sd1 ! j))
          \<and> (points (snd (sd' ! j)) = points (snd (sd1 ! j))
              \<or> (\<exists>p. points (snd (sd' ! j)) = points (snd (sd1 ! j)) @ [p])))"
proof -
  from add_points_cases [OF assms] show ?thesis
  proof
    assume "sd' = sd1"
    then show ?thesis by simp
  next
    assume "\<exists>p. sd' = upd_series i (\<lambda>s. s\<lparr>points := points s @ [p]\<rparr>) sd1"
    then obtain p where p: "sd' = upd_series i (\<lambda>s. s\<lparr>points := points s @ [p]\<rparr>) sd1" ..
    have "fst (sd' ! j) = fst (sd1 ! j)
          \<and> fields_of (snd (sd' ! j)) = fields_of (snd (sd1 ! j))
          \<and> (points (snd (sd' ! j)) = points (snd (sd1 ! j))
              \<or> (\<exists>p. points (snd (sd' ! j)) = points (snd (sd1 ! j)) @ [p]))"
      if "j < length sd1" for j
      using that by (simp add: p upd_series_nth)
    then show ?thesis by (simp add: p)
  qed
qed

lemma init_fields_nth:
  assumes "fields_inv S sd" and "derive_row B S raw = Inr (row, flds, k)"
    and "init_fields B k flds sd = (sd1, i)"
  shows "(\<forall>j < length sd. sd1 ! j = sd ! j)
    \<and> (case find_key B k sd of
          Some i' \<Rightarrow> length sd1 = length sd
        | None \<Rightarrow> sd1 = sd @ [(k, \<lparr>points = [], fields_of = flds\<rparr>)])"
proof (cases "find_key B k sd")
  case None
  with assms(3) show ?thesis by (auto simp: init_fields_new nth_append)
next
  case (Some i')
  have i': "i' < length sd" using Some by (rule find_key_less)
  have same: "(if fields_of s = [] then s\<lparr>fields_of := flds\<rparr> else s) = s"
    if "s \<in> snd ` set sd" for s
  proof (cases "fields_of s = []")
    case True
    with that assms(1) have "(case fields_schema S of None \<Rightarrow> [] | Some fs \<Rightarrow> fs) = []"
      by (auto simp: fields_inv_def)
    with derive_row_fields_empty [OF assms(2)] have "flds = []" by simp
    with True show ?thesis by simp
  next
    case False
    then show ?thesis by simp
  qed
  have "sd1 ! j = sd ! j" if "j < length sd" for j
  proof -
    have "snd (sd ! j) \<in> snd ` set sd" using that by simp
    from same [OF this] assms(3) Some that show ?thesis
      by (auto simp: init_fields_found upd_series_nth)
  qed
  moreover have "length sd1 = length sd"
    using assms(3) Some by (auto simp: init_fields_found)
  ultimately show ?thesis using Some by simp
qed

lemma process_row_step:
  assumes inv: "fields_inv S sd" and run: "process_row B S sd raw = Inr sd'"
  shows "\<exists>row flds k. derive_row B S raw = Inr (row, flds, k)
    \<and> (case find_key B k sd of
          Some i \<Rightarrow> length sd' = length sd
        | None \<Rightarrow> length sd' = Suc (length sd) \<and> fst (sd' ! length sd) = k
                  \<and> fields_of (snd (sd' ! length sd)) = flds)
    \<and> (\<forall>j < length sd. fst (sd' ! j) = fst (sd ! j)
          \<and> fields_of (snd (sd' ! j)) = fields_of (snd (sd ! j))
          \<and> (points (snd (sd' ! j)) = points (snd (sd ! j))
              \<or> (\<exists>p. points (snd (sd' ! j)) = points (snd (sd ! j)) @ [p])))
    \<and> fields_inv S sd'"
proof -
  from run obtain row flds k sd1 i where
    d: "derive_row B S raw = Inr (row, flds, k)"
    and i: "init_fields B k flds sd = (sd1, i)"
    and a: "add_points B (points_schema S) row i sd1 = Inr sd'"
    by (auto simp: process_row_def split: sum.splits prod.splits)
  note n1 = init_fields_nth [OF inv d i]
  note n2 = add_points_nth [OF a]
  have len: "length sd \<le> length sd1"
    using n1 by (auto split: option.splits)
  have old: "\<forall>j < length sd. fst (sd' ! j) = fst (sd ! j)
          \<and> fields_of (snd (sd' ! j)) = fields_of (snd (sd ! j))
          \<and> (points (snd (sd' ! j)) = points (snd (sd ! j))
              \<or> (\<exists>p. points (snd (sd' ! j)) = points (snd (sd ! j)) @ [p]))"
  proof (intro allI impI)
    fix j assume j: "j < length sd"
    with n1 have e: "sd1 ! j = sd ! j" by simp
    from j len have "j < length sd1" by simp
    with n2 have "fst (sd' ! j) = fst (sd1 ! j)
          \<and> fields_of (snd (sd' ! j)) = fields_of (snd (sd1 ! j))
          \<and> (points (snd (sd' ! j)) = points (snd (sd1 ! j))
              \<or> (\<exists>p. points (snd (sd' ! j)) = points (snd (sd1 ! j)) @ [p]))" by blast
    then show "fst (sd' ! j) = fst (sd ! j)
          \<and> fields_of (snd (sd' ! j)) = fields_of (snd (sd ! j))
          \<and> (points (snd (sd' ! j)) = points (snd (sd ! j))
              \<or> (\<exists>p. points (snd (sd' ! j)) = points (snd (sd ! j)) @ [p]))"
      unfolding e .
  qed
  have new: "case find_key B k sd of
          Some i \<Rightarrow> length sd' = length sd
        | None \<Rightarrow> length sd' = Suc (length sd) \<and> fst (sd' ! length sd) = k
                  \<and> fields_of (snd (sd' ! length sd)) = flds"
  proof (cases "find_key B k sd")
    case None
    with n1 have s: "sd1 = sd @ [(k, \<lparr>points = [], fields_of = flds\<rparr>)]" by simp
    then have "length sd < length sd1" by simp
    with n2 have "fst (sd' ! length sd) = fst (sd1 ! length sd)"
      "fields_of (snd (sd' ! length sd)) = fields_of (snd (sd1 ! length sd))" by blast+
    with s n2 None show ?thesis by simp
  next
    case (Some i')
    with n1 n2 show ?thesis by simp
  qed
  have "fields_inv S sd'"
    unfolding fields_inv_def
  proof (intro ballI impI)
    fix e assume e: "e \<in> set sd'" and emp: "fields_of (snd e) = []"
    from e obtain j where j: "j < length sd'" "e = sd' ! j" by (auto simp: in_set_conv_nth)
    show "(case fields_schema S of None \<Rightarrow> [] | Some fs \<Rightarrow> fs) = []"
    proof (cases "j < length sd")
      case True
      with old j emp have "fields_of (snd (sd ! j)) = []" by simp
      with inv True show ?thesis by (auto simp: fields_inv_def)
    next
      case False
      with new j have "find_key B k sd = None" "j = length sd"
        by (auto split: option.splits)
      with new j emp have "flds = []" by simp
      with derive_row_fields_empty [OF d] show ?thesis by simp
    qed
  qed
  with d new old show ?thesis by blast
qed

lemma fields_inv_Nil: "fields_inv S []"
  by (simp add: fields_inv_def)

lemma emit_nth:
  "i < length (fst (emit B tmpl ss)) \<Longrightarrow>
   i < length ss \<and> make_doc B tmpl (ss ! i) = Inr (fst (emit B tmpl ss) ! i)"
proof (induction ss arbitrary: i)
  case Nil
  then show ?case by simp
next
  case (Cons s ss)
  show ?case
  proof (cases "make_doc B tmpl s")
    case (Inl e)
    with Cons.prems show ?thesis by simp
  next
    case (Inr d)
    then have e: "fst (emit B tmpl (s # ss)) = d # fst (emit B tmpl ss)"
      by (simp split: prod.splits)
    show ?thesis
    proof (cases i)
      case 0
      with Inr e show ?thesis by simp
    next
      case (Suc j)
      with Cons.prems e have "j < length (fst (emit B tmpl ss))" by simp
      from Cons.IH [OF this] Suc e show ?thesis by simp
    qed
  qed
qed

lemma make_doc_fields: "make_doc B tmpl s = Inr d \<Longrightarrow> doc_fields d = fields_of s"
  by (auto simp: make_doc_def Let_def split: sum.splits)

lemma make_doc_points: "make_doc B tmpl s = Inr d \<Longrightarrow> doc_points d = sort_key fst (points s)"
  by (auto simp: make_doc_def Let_def split: sum.splits)

lemma emitted_points:
  assumes "process_rows B S [] rows = Inr sd"
    and "i < length (emitted (generate_json B rows S arr))"
  shows "i < length sd
    \<and> doc_fields (emitted (generate_json B rows S arr) ! i) = fields_of (snd (sd ! i))
    \<and> doc_points (emitted (generate_json B rows S arr) ! i) = sort_key fst (points (snd (sd ! i)))"
proof -
  define tmpl where "tmpl = (case id_template S of None \<Rightarrow> [] | Some t \<Rightarrow> t)"
  have em: "emitted (generate_json B rows S arr) = fst (emit B tmpl (map snd sd))"
    by (simp add: emitted_eq assms(1) tmpl_def)
  from assms(2) em have "i < length (fst (emit B tmpl (map snd sd)))" by simp
  note en = emit_nth [OF this]
  from en [THEN conjunct1] have i: "i < length sd" by simp
  note md0 = en [THEN conjunct2]
  from md0 i have md: "make_doc B tmpl (snd (sd ! i)) = Inr (emitted (generate_json B rows S arr) ! i)"
    by (simp add: em)
  from make_doc_fields [OF md] make_doc_points [OF md] i show ?thesis by simp
qed

subsection \<open>Grouping: the loop against the specification's routing\<close>

lemma first_match_Cons:
  "first_match B k ((k', s) # sd) =
     (if key_eq B k' k then Some 0 else map_option Suc (first_match B k sd))"
proof -
  have u: "[0..<length ((k', s) # sd)] = 0 # map Suc [0..<length sd]"
    by (metis length_Cons map_Suc_upt upt_conv_Cons zero_less_Suc)
  have f: "filter (\<lambda>i. key_eq B (fst (((k', s) # sd) ! i)) k) (map Suc [0..<length sd])
      = map Suc (filter (\<lambda>i. key_eq B (fst (sd ! i)) k) [0..<length sd])"
    by (simp add: filter_map comp_def)
  show ?thesis
    unfolding first_match_def u
    by (simp add: f split: list.splits)
qed

lemma find_key_first_match: "find_key B k sd = first_match B k sd"
proof (induction sd)
  case Nil
  then show ?case by (simp add: first_match_def)
next
  case (Cons a sd)
  obtain k' s where a: "a = (k', s)" by (cases a)
  show ?case
    unfolding a first_match_Cons using Cons.IH by (simp split: option.splits)
qed

lemma first_match_Some:
  assumes "first_match B k sd = Some i"
  shows "i < length sd \<and> key_eq B (fst (sd ! i)) k"
proof -
  from assms obtain js where "filter (\<lambda>i. key_eq B (fst (sd ! i)) k) [0..<length sd] = i # js"
    by (auto simp: first_match_def split: list.splits)
  then have "i \<in> set (filter (\<lambda>i. key_eq B (fst (sd ! i)) k) [0..<length sd])"
    by simp
  then show ?thesis by simp
qed

lemma first_match_None:
  assumes "first_match B k sd = None" and "i < length sd"
  shows "\<not> key_eq B (fst (sd ! i)) k"
proof -
  from assms(1) have "filter (\<lambda>i. key_eq B (fst (sd ! i)) k) [0..<length sd] = []"
    by (auto simp: first_match_def split: list.splits)
  then have "\<forall>i \<in> set [0..<length sd]. \<not> key_eq B (fst (sd ! i)) k"
    by (simp add: filter_empty_conv)
  with assms(2) show ?thesis by simp
qed

lemma add_points_row_point:
  "add_points B ps row i sd =
     (case row_point B ps row of
        Inl e \<Rightarrow> Inl e
      | Inr None \<Rightarrow> Inr sd
      | Inr (Some p) \<Rightarrow> Inr (upd_series i (\<lambda>s. s\<lparr>points := points s @ [p]\<rparr>) sd))"
  by (simp add: add_points_def row_point_def Let_def split: option.splits sum.splits)

lemma series_same: "\<lparr>points = points s, fields_of = fields_of s\<rparr> = (s :: 'f series)"
  by simp

lemma series_points_update:
  "(s :: 'f series)\<lparr>points := x\<rparr> = \<lparr>points = x, fields_of = fields_of s\<rparr>"
  by (cases s) simp

lemma process_row_route:
  assumes inv: "fields_inv S sd" and run: "process_row B S sd raw = Inr sd'"
  shows "\<exists>it. row_summary B S raw = Inr it \<and> sd' = route B it sd"
proof -
  from run obtain row flds k sd1 i where
    d: "derive_row B S raw = Inr (row, flds, k)"
    and i: "init_fields B k flds sd = (sd1, i)"
    and a: "add_points B (points_schema S) row i sd1 = Inr sd'"
    by (auto simp: process_row_def split: sum.splits prod.splits)
  from a obtain p where p: "row_point B (points_schema S) row = Inr p"
    and sd': "sd' = (case p of None \<Rightarrow> sd1
                    | Some pt \<Rightarrow> upd_series i (\<lambda>s. s\<lparr>points := points s @ [pt]\<rparr>) sd1)"
    by (auto simp: add_points_row_point split: sum.splits option.splits)
  have s: "row_summary B S raw = Inr (k, flds, p)"
    by (simp add: row_summary_def d p)
  note n1 = init_fields_nth [OF inv d i]
  have "sd' = route B (k, flds, p) sd"
  proof (cases "find_key B k sd")
    case None
    with n1 have sd1: "sd1 = sd @ [(k, \<lparr>points = [], fields_of = flds\<rparr>)]" by simp
    from None i have ii: "i = length sd" by (simp add: init_fields_new)
    from None have fm: "first_match B k sd = None" by (simp add: find_key_first_match)
    show ?thesis
      by (cases p) (simp_all add: sd' sd1 ii route_def fm point_list_def upd_series_def)
  next
    case (Some i')
    then have i': "i' < length sd" by (rule find_key_less)
    from Some n1 have "length sd1 = length sd" "\<forall>j < length sd. sd1 ! j = sd ! j" by simp_all
    then have sd1: "sd1 = sd" by (simp add: nth_equalityI)
    from Some i have ii: "i = i'" by (simp add: init_fields_found)
    from Some have fm: "first_match B k sd = Some i'" by (simp add: find_key_first_match)
    show ?thesis
    proof (cases p)
      case None
      then show ?thesis
        by (simp add: sd' sd1 route_def fm point_list_def series_same)
    next
      case (Some pt)
      with i' show ?thesis
        by (simp add: sd' sd1 ii route_def fm point_list_def upd_series_def series_points_update)
    qed
  qed
  with s show ?thesis by blast
qed

lemma process_rows_route:
  assumes "fields_inv S sd0" and "process_rows B S sd0 rows = Inr sd"
  shows "\<exists>items. row_summaries B S rows = Inr items \<and> sd = fold (route B) items sd0"
  using assms
proof (induction rows arbitrary: sd0)
  case Nil
  then show ?case by simp
next
  case (Cons raw rows)
  from Cons.prems(2) obtain sd1 where
    r: "process_row B S sd0 raw = Inr sd1" and rs: "process_rows B S sd1 rows = Inr sd"
    by (auto split: sum.splits)
  from process_row_step [OF Cons.prems(1) r] have inv1: "fields_inv S sd1" by blast
  from process_row_route [OF Cons.prems(1) r] obtain it where
    it: "row_summary B S raw = Inr it" and sd1: "sd1 = route B it sd0" by blast
  from Cons.IH [OF inv1 rs] obtain items where
    "row_summaries B S rows = Inr items" "sd = fold (route B) items sd1" by blast
  with it sd1 have "row_summaries B S (raw # rows) = Inr (it # items)
      \<and> sd = fold (route B) (it # items) sd0" by simp
  then show ?case by blast
qed

subsection \<open>Routing against the grouping by key\<close>

lemma py_eq_plain: "plain_value a \<Longrightarrow> plain_value b \<Longrightarrow> py_eq B a b = (a = b)"
  by (cases a; cases b) (simp_all add: plain_value_def)

lemma key_eq_plain:
  "list_all plain_value k \<Longrightarrow> list_all plain_value k' \<Longrightarrow> key_eq B k k' = (k = k')"
proof (induction k arbitrary: k')
  case Nil
  then show ?case by (cases k') (simp_all add: key_eq_def)
next
  case (Cons a k)
  show ?case
  proof (cases k')
    case Nil
    then show ?thesis by (simp add: key_eq_def)
  next
    case (Cons b l)
    with Cons.prems Cons.IH [of l] show ?thesis
      by (simp add: key_eq_def py_eq_plain)
  qed
qed

lemma first_occurrences_snoc:
  "first_occurrences (xs @ [x]) =
     (if x \<in> set xs then first_occurrences xs else first_occurrences xs @ [x])"
  by (simp add: first_occurrences_def)

lemma distinct_first_occurrences: "distinct (first_occurrences xs)"
  by (simp add: first_occurrences_def)

lemma set_first_occurrences: "set (first_occurrences xs) = set xs"
  by (simp add: first_occurrences_def)

lemma fst_series_of_key [simp]: "fst (series_of_key items k) = k"
  by (simp add: series_of_key_def)

lemma series_of_key_snoc_other:
  "fst it \<noteq> k \<Longrightarrow> series_of_key (items @ [it]) k = series_of_key items k"
  by (simp add: series_of_key_def find_snoc split: option.splits)

lemma series_of_key_snoc_same:
  assumes "k \<in> fst ` set items"
  shows "series_of_key (items @ [(k, flds, p)]) k =
     (k, \<lparr>points = points (snd (series_of_key items k)) @ point_list p,
          fields_of = fields_of (snd (series_of_key items k))\<rparr>)"
proof -
  from assms obtain it where "it \<in> set items" "fst it = k" by auto
  then have "find (\<lambda>it. fst it = k) items \<noteq> None"
    unfolding find_None_iff by blast
  then show ?thesis
    by (auto simp: series_of_key_def find_snoc split: option.splits)
qed

lemma series_of_key_snoc_new:
  assumes "k \<notin> fst ` set items"
  shows "series_of_key (items @ [(k, flds, p)]) k = (k, \<lparr>points = point_list p, fields_of = flds\<rparr>)"
proof -
  from assms have no: "\<And>it. it \<in> set items \<Longrightarrow> fst it \<noteq> k" by force
  then have n: "find (\<lambda>it. fst it = k) items = None"
    unfolding find_None_iff by blast
  from no have f: "filter (\<lambda>it. fst it = k) items = []"
    unfolding filter_empty_conv by blast
  show ?thesis by (simp add: series_of_key_def find_snoc n f)
qed

lemma route_grouped:
  assumes plain: "\<forall>it \<in> set items. list_all plain_value (fst it)"
    and plain0: "list_all plain_value k"
  shows "route B (k, flds, p) (grouped_series items) = grouped_series (items @ [(k, flds, p)])"
proof -
  define ks where "ks = first_occurrences (map fst items)"
  have gs: "grouped_series items = map (series_of_key items) ks"
    by (simp add: grouped_series_def ks_def)
  have ks_set: "set ks = fst ` set items"
    by (simp add: ks_def set_first_occurrences)
  have ks_dist: "distinct ks"
    by (simp add: ks_def distinct_first_occurrences)
  have ks_plain: "list_all plain_value (ks ! j)" if "j < length ks" for j
  proof -
    from that have "ks ! j \<in> fst ` set items" using ks_set nth_mem by blast
    with plain show ?thesis by auto
  qed
  have eq: "key_eq B (fst (grouped_series items ! j)) k = (ks ! j = k)" if "j < length ks" for j
    using that by (simp add: gs key_eq_plain [OF ks_plain plain0])
  show ?thesis
  proof (cases "first_match B k (grouped_series items)")
    case None
    have "ks ! j \<noteq> k" if "j < length ks" for j
      using first_match_None [OF None, of j] that eq gs by simp
    then have new: "k \<notin> set ks" by (auto simp: in_set_conv_nth)
    then have fo: "first_occurrences (map fst (items @ [(k, flds, p)])) = ks @ [k]"
      using ks_set by (simp add: first_occurrences_snoc ks_def)
    have "series_of_key (items @ [(k, flds, p)]) x = series_of_key items x" if "x \<in> set ks" for x
    proof -
      from that new have "fst (k, flds, p) \<noteq> x" by auto
      then show ?thesis by (rule series_of_key_snoc_other)
    qed
    then have old: "map (series_of_key (items @ [(k, flds, p)])) ks = map (series_of_key items) ks"
      by simp
    from new ks_set have "k \<notin> fst ` set items" by simp
    from series_of_key_snoc_new [OF this]
    have "grouped_series (items @ [(k, flds, p)])
        = map (series_of_key items) ks @ [(k, \<lparr>points = point_list p, fields_of = flds\<rparr>)]"
      unfolding grouped_series_def fo by (simp add: old)
    then show ?thesis by (simp add: route_def None [unfolded gs] gs)
  next
    case (Some i)
    note fm = first_match_Some [OF Some]
    from fm [THEN conjunct1] have i: "i < length ks" by (simp add: gs)
    from fm [THEN conjunct2] eq [OF i] have ki: "ks ! i = k" by simp
    with i have mem: "k \<in> set ks" by auto
    then have fo: "first_occurrences (map fst (items @ [(k, flds, p)])) = ks"
      using ks_set by (simp add: first_occurrences_snoc ks_def)
    from mem ks_set have "k \<in> fst ` set items" by simp
    note same = series_of_key_snoc_same [OF this, of flds p]
    have "map (series_of_key (items @ [(k, flds, p)])) ks
        = (map (series_of_key items) ks)
            [i := (k, \<lparr>points = points (snd (series_of_key items k)) @ point_list p,
                        fields_of = fields_of (snd (series_of_key items k))\<rparr>)]"
    proof (rule nth_equalityI)
      show "length (map (series_of_key (items @ [(k, flds, p)])) ks)
          = length ((map (series_of_key items) ks)
              [i := (k, \<lparr>points = points (snd (series_of_key items k)) @ point_list p,
                          fields_of = fields_of (snd (series_of_key items k))\<rparr>)])"
        by simp
    next
      fix j assume "j < length (map (series_of_key (items @ [(k, flds, p)])) ks)"
      then have j: "j < length ks" by simp
      show "map (series_of_key (items @ [(k, flds, p)])) ks ! j
          = (map (series_of_key items) ks)
              [i := (k, \<lparr>points = points (snd (series_of_key items k)) @ point_list p,
                          fields_of = fields_of (snd (series_of_key items k))\<rparr>)] ! j"
      proof (cases "j = i")
        case True
        with j ki same show ?thesis by simp
      next
        case False
        with j i ks_dist ki have "ks ! j \<noteq> k" by (auto simp: nth_eq_iff_index_eq)
        then have "fst (k, flds, p) \<noteq> ks ! j" by simp
        from series_of_key_snoc_other [OF this] j False show ?thesis by simp
      qed
    qed
    then have "grouped_series (items @ [(k, flds, p)])
        = (map (series_of_key items) ks)
            [i := (k, \<lparr>points = points (snd (series_of_key items k)) @ point_list p,
                        fields_of = fields_of (snd (series_of_key items k))\<rparr>)]"
      unfolding grouped_series_def fo .
    with i ki show ?thesis by (simp add: route_def Some [unfolded gs] gs)
  qed
qed

lemma fold_route_grouped:
  "\<forall>it \<in> set items. list_all plain_value (fst it) \<Longrightarrow>
   fold (route B) items [] = grouped_series items"
proof (induction items rule: rev_induct)
  case Nil
  then show ?case by (simp add: grouped_series_def first_occurrences_def)
next
  case (snoc it items)
  obtain k flds p where it: "it = (k, flds, p)" by (cases it)
  from snoc.prems have plain: "\<forall>it \<in> set items. list_all plain_value (fst it)"
    and plain0: "list_all plain_value k" by (simp_all add: it)
  from snoc.IH [OF plain] route_grouped [OF plain plain0, of B flds p]
  show ?case by (simp add: it)
qed

subsection \<open>First write wins\<close>

text \<open>
  C2. Let the loop over the rows end without error, with the series dictionary \<open>sd\<close>,
  and let each row contribute its grouping key, its derived fields and its point, if
  any (\<open>items\<close>). Then \<open>sd\<close> is what first-write-wins routing builds from the rows in
  order: a row whose key equals the key of a series adds its own point, and nothing
  else, to the first such series, whose fields stay those of the row that created it;
  a row whose key equals no key creates the next series from its fields and its point.
  For keys of strings and integers, where equal keys are the same key, this is one
  series for each key in the order of first appearance, with the fields of the first row
  of that key and the points of all its rows, in row order. The \<open>i\<close>-th emitted document
  carries the fields of the \<open>i\<close>-th series and its points, sorted by x.
\<close>

theorem first_write_wins:
  assumes "process_rows B S [] rows = Inr sd"
  shows "\<exists>items. row_summaries B S rows = Inr items
    \<and> sd = fold (route B) items []
    \<and> ((\<forall>it \<in> set items. list_all plain_value (fst it)) \<longrightarrow> sd = grouped_series items)
    \<and> (\<forall>i < length (emitted (generate_json B rows S arr)). i < length sd
          \<and> doc_fields (emitted (generate_json B rows S arr) ! i) = fields_of (snd (sd ! i))
          \<and> doc_points (emitted (generate_json B rows S arr) ! i)
              = sort_key fst (points (snd (sd ! i))))"
proof -
  from process_rows_route [OF fields_inv_Nil assms] obtain items where
    items: "row_summaries B S rows = Inr items" and sd: "sd = fold (route B) items []"
    by blast
  have "sd = grouped_series items" if "\<forall>it \<in> set items. list_all plain_value (fst it)"
    using fold_route_grouped [OF that, of B] sd by simp
  moreover have "\<forall>i < length (emitted (generate_json B rows S arr)). i < length sd
          \<and> doc_fields (emitted (generate_json B rows S arr) ! i) = fields_of (snd (sd ! i))
          \<and> doc_points (emitted (generate_json B rows S arr) ! i)
              = sort_key fst (points (snd (sd ! i)))"
    using emitted_points [OF assms] by blast
  ultimately show ?thesis using items sd by blast
qed

theorem first_write_wins_witness:
  "process_rows demo_builtins label_schema [] two_group_rows
     = Inr [([VStr ''A''],
             \<lparr>points = [(''1'', VStr ''10''), (''2'', VStr ''20'')],
              fields_of = [(''category'', VStr ''A''), (''label'', VStr ''first'')]\<rparr>),
            ([VStr ''B''],
             \<lparr>points = [(''5'', VStr ''50'')],
              fields_of = [(''category'', VStr ''B''), (''label'', VStr ''other'')]\<rparr>)]
   \<and> grouped_series
        [([VStr ''A''], [(''category'', VStr ''A''), (''label'', VStr ''first'')],
          Some (''1'', VStr ''10'' :: int pyval)),
         ([VStr ''B''], [(''category'', VStr ''B''), (''label'', VStr ''other'')],
          Some (''5'', VStr ''50'')),
         ([VStr ''A''], [(''category'', VStr ''A''), (''label'', VStr ''second'')],
          Some (''2'', VStr ''20''))]
     = [([VStr ''A''],
         \<lparr>points = [(''1'', VStr ''10''), (''2'', VStr ''20'')],
          fields_of = [(''category'', VStr ''A''), (''label'', VStr ''first'')]\<rparr>),
        ([VStr ''B''],
         \<lparr>points = [(''5'', VStr ''50'')],
          fields_of = [(''category'', VStr ''B''), (''label'', VStr ''other'')]\<rparr>)]"
proof -
  have run: "process_rows demo_builtins label_schema [] two_group_rows
     = Inr [([VStr ''A''],
             \<lparr>points = [(''1'', VStr ''10''), (''2'', VStr ''20'')],
              fields_of = [(''category'', VStr ''A''), (''label'', VStr ''first'')]\<rparr>),
            ([VStr ''B''],
             \<lparr>points = [(''5'', VStr ''50'')],
              fields_of = [(''category'', VStr ''B''), (''label'', VStr ''other'')]\<rparr>)]"
    by (simp add: run_defs two_group_rows_def label_schema_def lower_simps strip_simps)
  have sums: "row_summaries demo_builtins label_schema two_group_rows
     = Inr [([VStr ''A''], [(''category'', VStr ''A''), (''label'', VStr ''first'')],
             Some (''1'', VStr ''10'')),
            ([VStr ''B''], [(''category'', VStr ''B''), (''label'', VStr ''other'')],
             Some (''5'', VStr ''50'')),
            ([VStr ''A''], [(''category'', VStr ''A''), (''label'', VStr ''second'')],
             Some (''2'', VStr ''20''))]"
    by (simp add: run_defs row_summary_def row_point_def two_group_rows_def label_schema_def
        lower_simps strip_simps)
  from first_write_wins [OF run, of False] obtain items where
    a: "row_summaries demo_builtins label_schema two_group_rows = Inr items"
    and c: "(\<forall>it \<in> set items. list_all plain_value (fst it)) \<longrightarrow>
        [([VStr ''A''],
          \<lparr>points = [(''1'', VStr ''10''), (''2'', VStr ''20'')],
           fields_of = [(''category'', VStr ''A''), (''label'', VStr ''first'')]\<rparr>),
         ([VStr ''B''],
          \<lparr>points = [(''5'', VStr ''50'')],
           fields_of = [(''category'', VStr ''B''), (''label'', VStr ''other'')]\<rparr>)]
        = grouped_series items"
    by blast
  from a sums have i: "items
     = [([VStr ''A''], [(''category'', VStr ''A''), (''label'', VStr ''first'')],
         Some (''1'', VStr ''10'')),
        ([VStr ''B''], [(''category'', VStr ''B''), (''label'', VStr ''other'')],
         Some (''5'', VStr ''50'')),
        ([VStr ''A''], [(''category'', VStr ''A''), (''label'', VStr ''second'')],
         Some (''2'', VStr ''20''))]"
    by simp
  have "\<forall>it \<in> set items. list_all plain_value (fst it)"
    unfolding i by (simp add: plain_value_def)
  with c have "[([VStr ''A''],
          \<lparr>points = [(''1'', VStr ''10''), (''2'', VStr ''20'')],
           fields_of = [(''category'', VStr ''A''), (''label'', VStr ''first'')]\<rparr>),
         ([VStr ''B''],
          \<lparr>points = [(''5'', VStr ''50'')],
           fields_of = [(''category'', VStr ''B''), (''label'', VStr ''other'')]\<rparr>)]
        = grouped_series items" by simp
  with run show ?thesis unfolding i by simp
qed

end
